theory Spec2Isabelle
  imports Complex_Main
begin

section \<open>Data model of server.js\<close>

text \<open>
  The server keeps a constant array \<open>products\<close> and a \<open>Map\<close> from session identifiers to
  cart arrays. Product and cart-item objects become records. JavaScript numbers that hold
  identifiers, stock levels and quantities are integer valued and far below \<open>2 ^ 53\<close>, where
  binary64 arithmetic and comparison are exact, so they are modelled as \<open>int\<close>. A price is
  only ever copied from a product into a cart item by the operations modelled here; it is
  kept as the decimal literal of the source. The \<open>total\<close> field of the cart responses is
  computed in binary64 floating point (\<open>calculateCartTotal\<close>, \<open>toFixed\<close>,
  \<open>parseFloat\<close>) and is left out of the response records.
  The numbers of the product listing come from query strings and can be any binary64
  value; they have a type of their own.
  Strings are sequences of ASCII characters.
\<close>

record product =
  product_id :: int
  product_name :: string
  product_price :: rat
  product_image :: string
  product_description :: string
  product_stock :: int

record item =
  item_id :: int
  item_name :: string
  item_price :: rat
  item_image :: string
  item_quantity :: int

definition products :: "product list" where
  "products =
    [ \<lparr> product_id = 1, product_name = ''iPhone 15 Pro'', product_price = 999.99,
        product_image = ''https://9to5mac.com/wp-content/uploads/sites/6/2024/07/apple-device-lineup.jpg?quality=82&strip=all&w=1600'',
        product_description = ''Latest iPhone with advanced features'', product_stock = 50 \<rparr>,
      \<lparr> product_id = 2, product_name = ''Samsung Galaxy S24'', product_price = 899.99,
        product_image = ''https://wallpaperaccess.com/full/9496579.jpg'',
        product_description = ''Flagship Samsung smartphone'', product_stock = 30 \<rparr>,
      \<lparr> product_id = 3, product_name = ''MacBook Pro M3'', product_price = 1999.99,
        product_image = ''https://wallpaperaccess.com/full/9496579.jpg'',
        product_description = ''Powerful laptop for professionals'', product_stock = 25 \<rparr>,
      \<lparr> product_id = 4, product_name = ''Sony WH-1000XM5'', product_price = 399.99,
        product_image = ''https://wallpaperaccess.com/full/9496579.jpg'',
        product_description = ''Noise-canceling wireless headphones'', product_stock = 40 \<rparr>,
      \<lparr> product_id = 5, product_name = ''iPad Air'', product_price = 599.99,
        product_image = ''https://tse4.mm.bing.net/th/id/OIP.E9Ux33FuCo7mGLn9Ey3wnAHaE8?pid=Api&P=0&h=180'',
        product_description = ''Versatile tablet for work and play'', product_stock = 35 \<rparr> ]"

subsection \<open>The built-in \<open>parseInt\<close>\<close>

text \<open>
  \<open>parseInt(string)\<close> without a radix, as ECMAScript defines it: leading white space is
  skipped, one sign is read, a prefix \<open>0x\<close> or \<open>0X\<close> selects radix 16 (radix 10
  otherwise), and the longest run of digits of that radix is the value; the rest of the
  string is ignored. With no digit the result is \<open>NaN\<close>, here \<open>None\<close>.
\<close>

definition isWhiteSpace :: "char \<Rightarrow> bool" where
  "isWhiteSpace c = (of_char c \<in> {9, 10, 11, 12, 13, 32 :: nat})"

definition digitValue :: "nat \<Rightarrow> char \<Rightarrow> nat option" where
  "digitValue R c =
    (let n = (of_char c :: nat);
         d = (if 48 \<le> n \<and> n \<le> 57 then Some (n - 48)
              else if 97 \<le> n \<and> n \<le> 122 then Some (n - 87)
              else if 65 \<le> n \<and> n \<le> 90 then Some (n - 55)
              else None)
     in case d of None \<Rightarrow> None | Some v \<Rightarrow> if v < R then Some v else None)"

definition mathInt :: "nat \<Rightarrow> string \<Rightarrow> nat" where
  "mathInt R Z = foldl (\<lambda>a c. case digitValue R c of None \<Rightarrow> a | Some d \<Rightarrow> a * R + d) 0 Z"

definition parseInt :: "string \<Rightarrow> int option" where
  "parseInt inputString =
    (let S = dropWhile isWhiteSpace inputString;
         sign = (if take 1 S = ''-'' then - 1 else 1 :: int);
         S1 = (if take 1 S = ''+'' \<or> take 1 S = ''-'' then drop 1 S else S);
         hex = (take 2 S1 = ''0x'' \<or> take 2 S1 = ''0X'');
         R = (if hex then 16 else 10);
         S2 = (if hex then drop 2 S1 else S1);
         Z = takeWhile (\<lambda>c. digitValue R c \<noteq> None) S2
     in if Z = [] then None else Some (sign * int (mathInt R Z)))"

subsection \<open>Catalog lookup\<close>

text \<open>
  \<open>findProductById = (id) => products.find(product => product.id === parseInt(id))\<close>.
  \<open>NaN\<close> is strictly equal to nothing, so no product is found for it; \<open>find\<close> yields
  \<open>undefined\<close>, here \<open>None\<close>.
\<close>

definition findProductById :: "string \<Rightarrow> product option" where
  "findProductById ident = List.find (\<lambda>product. Some (product_id product) = parseInt ident) products"

subsection \<open>Numbers\<close>

text \<open>
  The arithmetic of the product listing works on JavaScript numbers: the values that the
  query strings \<open>page\<close> and \<open>limit\<close> denote. A number is a finite binary64 value, given by
  the rational it stands for, an infinity or \<open>NaN\<close>. Zero stands for both \<open>+0\<close> and
  \<open>-0\<close>: the listing cannot tell them apart, since \<open>slice\<close> reads both as index 0, the
  comparisons treat them alike and JSON prints both as \<open>0\<close>.

  \<open>fl\<close> rounds a rational to the nearest binary64 value, ties to the even significand:
  53 significant bits, gradual underflow below \<open>2 ^ -1022\<close> (the spacing stays
  \<open>2 ^ -1074\<close>), and overflow to an infinity when the rounded value reaches \<open>2 ^ 1024\<close>.
  \<open>exponentOf a\<close> is the integer \<open>e\<close> with \<open>2 ^ e \<le> a < 2 ^ (e + 1)\<close>.
\<close>

datatype number = Num rat | PosInfinity | NegInfinity | NaN

fun bitLength :: "nat \<Rightarrow> nat" where
  "bitLength n = (if n = 0 then 0 else Suc (bitLength (n div 2)))"

declare bitLength.simps [simp del]

definition pow2 :: "int \<Rightarrow> rat" where
  "pow2 e = (if 0 \<le> e then 2 ^ nat e else 1 / 2 ^ nat (- e))"

definition exponentOf :: "rat \<Rightarrow> int" where
  "exponentOf a =
     (if 1 \<le> a then int (bitLength (nat \<lfloor>a\<rfloor>)) - 1
      else - int (bitLength (nat (\<lceil>1 / a\<rceil> - 1))))"

definition roundHalfEven :: "rat \<Rightarrow> int" where
  "roundHalfEven m =
     (let f = \<lfloor>m\<rfloor>; d = m - of_int f
      in if d < 1 / 2 then f else if 1 / 2 < d then f + 1 else if even f then f else f + 1)"

definition fl :: "rat \<Rightarrow> number" where
  "fl x =
     (if x = 0 then Num 0
      else
        let a = \<bar>x\<bar>;
            q = max (exponentOf a) (- 1022) - 52;
            y = of_int (roundHalfEven (a / pow2 q)) * pow2 q
        in if pow2 1024 \<le> y then (if 0 < x then PosInfinity else NegInfinity)
           else Num (if 0 < x then y else - y))"

text \<open>
  The operators \<open>-\<close>, \<open>*\<close> and \<open><\<close> on numbers (\<open>Number::subtract\<close>,
  \<open>Number::multiply\<close>, \<open>Number::lessThan\<close>): the exact result rounded by \<open>fl\<close>, with the
  IEEE rules for infinities and \<open>NaN\<close>; a comparison with \<open>NaN\<close> is false.
\<close>

definition numberSubtract :: "number \<Rightarrow> number \<Rightarrow> number" where
  "numberSubtract x y =
     (case (x, y) of
        (NaN, _) \<Rightarrow> NaN
      | (_, NaN) \<Rightarrow> NaN
      | (PosInfinity, PosInfinity) \<Rightarrow> NaN
      | (NegInfinity, NegInfinity) \<Rightarrow> NaN
      | (PosInfinity, _) \<Rightarrow> PosInfinity
      | (NegInfinity, _) \<Rightarrow> NegInfinity
      | (Num a, PosInfinity) \<Rightarrow> NegInfinity
      | (Num a, NegInfinity) \<Rightarrow> PosInfinity
      | (Num a, Num b) \<Rightarrow> fl (a - b))"

definition signOf :: "number \<Rightarrow> int" where
  "signOf x =
     (case x of
        Num a \<Rightarrow> (if 0 < a then 1 else if a < 0 then - 1 else 0)
      | PosInfinity \<Rightarrow> 1
      | NegInfinity \<Rightarrow> - 1
      | NaN \<Rightarrow> 0)"

definition numberMultiply :: "number \<Rightarrow> number \<Rightarrow> number" where
  "numberMultiply x y =
     (case (x, y) of
        (Num a, Num b) \<Rightarrow> fl (a * b)
      | _ \<Rightarrow>
          if x = NaN \<or> y = NaN \<or> signOf x * signOf y = 0 then NaN
          else if 0 < signOf x * signOf y then PosInfinity else NegInfinity)"

definition numberLess :: "number \<Rightarrow> number \<Rightarrow> bool" where
  "numberLess x y =
     (case (x, y) of
        (NaN, _) \<Rightarrow> False
      | (_, NaN) \<Rightarrow> False
      | (Num a, Num b) \<Rightarrow> a < b
      | (NegInfinity, NegInfinity) \<Rightarrow> False
      | (NegInfinity, _) \<Rightarrow> True
      | (_, PosInfinity) \<Rightarrow> x \<noteq> PosInfinity
      | _ \<Rightarrow> False)"

text \<open>
  \<open>Math.ceil(length / limit)\<close> as JSON renders it, for an array length and a number: the
  quotient is rounded by \<open>fl\<close> before the ceiling is taken. Division by a zero gives an
  infinity or \<open>NaN\<close>, which JSON renders as \<open>null\<close>, here \<open>None\<close>; division by an
  infinity gives a zero.
\<close>

definition ceilOfQuotient :: "nat \<Rightarrow> number \<Rightarrow> int option" where
  "ceilOfQuotient n limit =
     (case limit of
        NaN \<Rightarrow> None
      | PosInfinity \<Rightarrow> Some 0
      | NegInfinity \<Rightarrow> Some 0
      | Num l \<Rightarrow>
          if l = 0 then None
          else (case fl (rat_of_nat n / l) of Num y \<Rightarrow> Some \<lceil>y\<rceil> | _ \<Rightarrow> None))"

subsection \<open>Array helpers\<close>

text \<open>
  \<open>Array.prototype.findIndex\<close>: the index of the first element that satisfies the
  predicate, \<open>-1\<close> when there is none.
\<close>

fun findIndex :: "('a \<Rightarrow> bool) \<Rightarrow> 'a list \<Rightarrow> int" where
  "findIndex P [] = - 1"
| "findIndex P (x # xs) =
     (if P x then 0 else (let i = findIndex P xs in if i = - 1 then - 1 else i + 1))"

text \<open>\<open>array.splice(index, 1)\<close> for an index inside the array: the array without that element.\<close>

definition splice1 :: "'a list \<Rightarrow> nat \<Rightarrow> 'a list" where
  "splice1 xs i = take i xs @ drop (Suc i) xs"

text \<open>
  \<open>Array.prototype.slice(start, end)\<close>. Each argument is turned into an index by
  \<open>ToIntegerOrInfinity\<close> (\<open>NaN\<close> reads as 0, a fraction is truncated towards zero); a
  negative index counts from the end of the array, both indices are clamped to the array,
  and an empty range yields the empty array.
\<close>

definition truncate_rat :: "rat \<Rightarrow> int" where
  "truncate_rat x = (if 0 \<le> x then \<lfloor>x\<rfloor> else \<lceil>x\<rceil>)"

definition relativeIndex :: "nat \<Rightarrow> number \<Rightarrow> nat" where
  "relativeIndex len v =
     (case v of
        NaN \<Rightarrow> 0
      | NegInfinity \<Rightarrow> 0
      | PosInfinity \<Rightarrow> len
      | Num x \<Rightarrow>
          if truncate_rat x < 0 then nat (max (int len + truncate_rat x) 0)
          else nat (min (truncate_rat x) (int len)))"

definition slice :: "'a list \<Rightarrow> number \<Rightarrow> number \<Rightarrow> 'a list" where
  "slice xs startIndex endIndex =
     (let len = length xs;
          k = relativeIndex len startIndex;
          final = relativeIndex len endIndex
      in take (final - k) (drop k xs))"

text \<open>\<open>String.prototype.toLowerCase\<close> and \<open>String.prototype.includes\<close> on ASCII strings.\<close>

definition toLowerCase :: "string \<Rightarrow> string" where
  "toLowerCase s =
     map (\<lambda>c. if 65 \<le> (of_char c :: nat) \<and> (of_char c :: nat) \<le> 90
               then char_of ((of_char c :: nat) + 32) else c) s"

fun includesStr :: "string \<Rightarrow> string \<Rightarrow> bool" where
  "includesStr [] t = (t = [])"
| "includesStr (c # s) t = (take (length t) (c # s) = t \<or> includesStr s t)"

text \<open>
  A destructuring default, as in \<open>const { quantity = 1 } = req.body\<close>: the default replaces
  \<open>undefined\<close> only.
\<close>

definition withDefault :: "'a \<Rightarrow> 'a option \<Rightarrow> 'a" where
  "withDefault d v = (case v of None \<Rightarrow> d | Some n \<Rightarrow> n)"

section \<open>Product listing\<close>

text \<open>
  The handler of \<open>GET /api/products\<close>. The query parser hands it strings, and its
  arithmetic converts them: \<open>pageParam\<close> and \<open>limitParam\<close> are the numbers that the
  strings \<open>page\<close> and \<open>limit\<close> denote (\<open>None\<close> when the parameter is absent, \<open>NaN\<close>
  for a string that is no numeric literal); \<open>search\<close> is a string. The catalog is an
  argument, the server passes \<open>products\<close>. The response field \<open>currentPage\<close> is
  \<open>parseInt(page)\<close>, read from the raw string and not from the number; it is left out.
\<close>

record pagination =
  totalPages :: "int option"
  totalProducts :: nat
  hasNext :: bool
  hasPrev :: bool

record listing =
  listing_products :: "product list"
  listing_pagination :: pagination

definition matchingProducts :: "product list \<Rightarrow> string option \<Rightarrow> product list" where
  "matchingProducts catalog search =
     (case search of
        None \<Rightarrow> catalog
      | Some s \<Rightarrow>
          if s = [] then catalog
          else filter (\<lambda>product.
                 includesStr (toLowerCase (product_name product)) (toLowerCase s) \<or>
                 includesStr (toLowerCase (product_description product)) (toLowerCase s)) catalog)"

definition listProducts ::
  "product list \<Rightarrow> string option \<Rightarrow> number option \<Rightarrow> number option \<Rightarrow> listing" where
  "listProducts catalog search pageParam limitParam =
     (let page = withDefault (Num 1) pageParam;
          limit = withDefault (Num 10) limitParam;
          filteredProducts = matchingProducts catalog search;
          startIndex = numberMultiply (numberSubtract page (Num 1)) limit;
          endIndex = numberMultiply page limit;
          paginatedProducts = slice filteredProducts startIndex endIndex
      in \<lparr> listing_products = paginatedProducts,
           listing_pagination =
             \<lparr> totalPages = ceilOfQuotient (length filteredProducts) limit,
               totalProducts = length filteredProducts,
               hasNext = numberLess endIndex (Num (rat_of_nat (length filteredProducts))),
               hasPrev = numberLess (Num 0) startIndex \<rparr> \<rparr>)"

section \<open>Cart store and responses\<close>

text \<open>
  \<open>const carts = new Map()\<close>. Every array stored in the map is created by an array
  literal of its own and is reachable through one key only, so in-place updates of a
  session's array are modelled by storing the updated list under that key.
\<close>

type_synonym carts = "string \<Rightarrow> item list option"

definition getOrCreateCart :: "carts \<Rightarrow> string \<Rightarrow> carts \<times> item list" where
  "getOrCreateCart carts sessionId =
     (case carts sessionId of
        None \<Rightarrow> (carts(sessionId \<mapsto> []), [])
      | Some cart \<Rightarrow> (carts, cart))"

text \<open>
  One constructor for each error response of the cart and product routes, with its HTTP
  status. The two stock messages of the POST handler (\<open>Insufficient stock. Only N items
  available.\<close> and \<open>Cannot add Q more items. Total would exceed stock limit of N.\<close>) are
  both the specification's \<open>InsufficientStock\<close>.
\<close>

datatype error =
    InvalidProductId
  | ProductNotFound
  | InvalidQuantity
  | InsufficientStock int
  | StockLimitExceeded int int
  | QuantityRequired
  | NotFound
  | InvalidId
  | AlreadyEmpty

fun statusCode :: "error \<Rightarrow> nat" where
  "statusCode InvalidProductId = 400"
| "statusCode ProductNotFound = 404"
| "statusCode InvalidQuantity = 400"
| "statusCode (InsufficientStock n) = 400"
| "statusCode (StockLimitExceeded q n) = 400"
| "statusCode QuantityRequired = 400"
| "statusCode NotFound = 404"
| "statusCode InvalidId = 400"
| "statusCode AlreadyEmpty = 400"

fun isInsufficientStock :: "error \<Rightarrow> bool" where
  "isInsufficientStock (InsufficientStock n) = True"
| "isInsufficientStock (StockLimitExceeded q n) = True"
| "isInsufficientStock e = False"

record cart_response =
  resp_status :: nat
  resp_cart :: "item list"
  resp_itemCount :: nat
  resp_removedItem :: "item option"

type_synonym result = "(error + cart_response) \<times> carts"

subsection \<open>Middleware\<close>

text \<open>
  \<open>req.headers['x-session-id'] || uuidv4()\<close>: an absent or empty header is replaced by a
  generated identifier. The identifier that \<open>uuidv4()\<close> would return is an input.
\<close>

definition generateSessionId :: "string option \<Rightarrow> string \<Rightarrow> string" where
  "generateSessionId header uuid =
     (case header of None \<Rightarrow> uuid | Some h \<Rightarrow> if h = [] then uuid else h)"

definition validateProductId :: "string \<Rightarrow> error + product" where
  "validateProductId productId =
     (if productId = [] \<or> parseInt productId = None then Inl InvalidProductId
      else case findProductById productId of
             None \<Rightarrow> Inl ProductNotFound
           | Some product \<Rightarrow> Inr product)"

text \<open>
  The \<open>quantity\<close> member of a JSON body: absent, a number that \<open>Number.isInteger\<close>
  accepts, or any other value (a fraction, a string, \<open>null\<close>, a boolean, an object).
\<close>

datatype quantity_value = Undefined | IntegerNumber int | NotAnInteger

fun validateQuantity :: "quantity_value \<Rightarrow> error + int option" where
  "validateQuantity Undefined = Inr None"
| "validateQuantity (IntegerNumber n) = (if n \<le> 0 then Inl InvalidQuantity else Inr (Some n))"
| "validateQuantity NotAnInteger = Inl InvalidQuantity"

subsection \<open>Route handlers\<close>

text \<open>
  Each handler takes the store and returns the response together with the store after the
  request. \<open>quantity\<close> is \<open>None\<close> for \<open>undefined\<close>.
\<close>

definition okResponse :: "nat \<Rightarrow> item list \<Rightarrow> item option \<Rightarrow> cart_response" where
  "okResponse code cart removed =
     \<lparr> resp_status = code, resp_cart = cart, resp_itemCount = length cart,
       resp_removedItem = removed \<rparr>"

definition addItem :: "carts \<Rightarrow> string \<Rightarrow> product \<Rightarrow> int option \<Rightarrow> result" where
  "addItem carts sessionId product q =
     (let quantity = withDefault 1 q;
          (carts1, cart) = getOrCreateCart carts sessionId
      in if quantity > product_stock product
         then (Inl (InsufficientStock (product_stock product)), carts1)
         else
           let existingItemIndex = findIndex (\<lambda>item. item_id item = product_id product) cart
           in if existingItemIndex > - 1
              then
                let existing = cart ! nat existingItemIndex;
                    newQuantity = item_quantity existing + quantity
                in if newQuantity > product_stock product
                   then (Inl (StockLimitExceeded quantity (product_stock product)), carts1)
                   else
                     let cart' = cart[nat existingItemIndex :=
                                        existing\<lparr>item_quantity := newQuantity\<rparr>]
                     in (Inr (okResponse 201 cart' None), carts1(sessionId \<mapsto> cart'))
              else
                let cart' = cart @ [\<lparr> item_id = product_id product,
                                       item_name = product_name product,
                                       item_price = product_price product,
                                       item_image = product_image product,
                                       item_quantity = quantity \<rparr>]
                in (Inr (okResponse 201 cart' None), carts1(sessionId \<mapsto> cart')))"

definition getCart :: "carts \<Rightarrow> string \<Rightarrow> result" where
  "getCart carts sessionId =
     (let (carts1, cart) = getOrCreateCart carts sessionId
      in (Inr (okResponse 200 cart None), carts1))"

definition updateItem :: "carts \<Rightarrow> string \<Rightarrow> product \<Rightarrow> int option \<Rightarrow> result" where
  "updateItem carts sessionId product q =
     (let (carts1, cart) = getOrCreateCart carts sessionId
      in case q of
           None \<Rightarrow> (Inl QuantityRequired, carts1)
         | Some quantity \<Rightarrow>
             if quantity = 0 then (Inl QuantityRequired, carts1)
             else
               let itemIndex = findIndex (\<lambda>item. item_id item = product_id product) cart
               in if itemIndex = - 1 then (Inl NotFound, carts1)
                  else if quantity > product_stock product
                  then (Inl (InsufficientStock (product_stock product)), carts1)
                  else
                    let cart' = cart[nat itemIndex :=
                                       (cart ! nat itemIndex)\<lparr>item_quantity := quantity\<rparr>]
                    in (Inr (okResponse 200 cart' None), carts1(sessionId \<mapsto> cart')))"

definition removeItem :: "carts \<Rightarrow> string \<Rightarrow> string \<Rightarrow> result" where
  "removeItem carts sessionId productId =
     (let (carts1, cart) = getOrCreateCart carts sessionId
      in if productId = [] \<or> parseInt productId = None then (Inl InvalidId, carts1)
         else
           let itemIndex = findIndex (\<lambda>item. Some (item_id item) = parseInt productId) cart
           in if itemIndex = - 1 then (Inl NotFound, carts1)
              else
                let removedItem = cart ! nat itemIndex;
                    cart' = splice1 cart (nat itemIndex)
                in (Inr (okResponse 200 cart' (Some removedItem)),
                    carts1(sessionId \<mapsto> cart')))"

definition clearCart :: "carts \<Rightarrow> string \<Rightarrow> result" where
  "clearCart carts sessionId =
     (let (carts1, cart) = getOrCreateCart carts sessionId
      in if length cart = 0 then (Inl AlreadyEmpty, carts1)
         else (Inr \<lparr> resp_status = 200, resp_cart = [], resp_itemCount = 0,
                     resp_removedItem = None \<rparr>,
               carts1(sessionId \<mapsto> [])))"

subsection \<open>Routes with their middleware chains\<close>

datatype request =
    POST_cart "string option" string string quantity_value
  | GET_cart "string option" string
  | PUT_cart "string option" string string quantity_value
  | DELETE_cart_item "string option" string string
  | DELETE_cart "string option" string

fun sessionOf :: "request \<Rightarrow> string" where
  "sessionOf (POST_cart header uuid productId q) = generateSessionId header uuid"
| "sessionOf (GET_cart header uuid) = generateSessionId header uuid"
| "sessionOf (PUT_cart header uuid productId q) = generateSessionId header uuid"
| "sessionOf (DELETE_cart_item header uuid productId) = generateSessionId header uuid"
| "sessionOf (DELETE_cart header uuid) = generateSessionId header uuid"

fun handle :: "request \<Rightarrow> carts \<Rightarrow> result" where
  "handle (POST_cart header uuid productId q) carts =
     (case validateProductId productId of
        Inl e \<Rightarrow> (Inl e, carts)
      | Inr product \<Rightarrow>
          (case validateQuantity q of
             Inl e \<Rightarrow> (Inl e, carts)
           | Inr quantity \<Rightarrow> addItem carts (generateSessionId header uuid) product quantity))"
| "handle (GET_cart header uuid) carts = getCart carts (generateSessionId header uuid)"
| "handle (PUT_cart header uuid productId q) carts =
     (case validateProductId productId of
        Inl e \<Rightarrow> (Inl e, carts)
      | Inr product \<Rightarrow>
          (case validateQuantity q of
             Inl e \<Rightarrow> (Inl e, carts)
           | Inr quantity \<Rightarrow> updateItem carts (generateSessionId header uuid) product quantity))"
| "handle (DELETE_cart_item header uuid productId) carts =
     removeItem carts (generateSessionId header uuid) productId"
| "handle (DELETE_cart header uuid) carts = clearCart carts (generateSessionId header uuid)"

text \<open>The stores the server can be in: empty at start, then one request after another.\<close>

inductive reachable :: "carts \<Rightarrow> bool" where
  initial: "reachable Map.empty"
| step: "reachable carts \<Longrightarrow> reachable (snd (handle request carts))"

text \<open>What a session sees as its cart: an absent entry reads as the empty cart.\<close>

definition cartOf :: "carts \<Rightarrow> string \<Rightarrow> item list" where
  "cartOf carts sessionId = (case carts sessionId of None \<Rightarrow> [] | Some cart \<Rightarrow> cart)"

section \<open>Notions used in the statements\<close>

text \<open>The object literal that the POST handler pushes for a product not yet in the cart.\<close>

definition newItem :: "product \<Rightarrow> int \<Rightarrow> item" where
  "newItem product quantity =
     \<lparr> item_id = product_id product, item_name = product_name product,
       item_price = product_price product, item_image = product_image product,
       item_quantity = quantity \<rparr>"

text \<open>
  Two readings of the specification's words about identifiers. A \<^emph>\<open>valid positive integer\<close>
  is a string that is nothing but the decimal numeral of a positive integer. A
  \<^emph>\<open>parseable positive integer\<close> is the weaker notion: \<open>parseInt\<close> reads a number from
  the string and that number is positive.
\<close>

definition isDecimalDigit :: "char \<Rightarrow> bool" where
  "isDecimalDigit c = (48 \<le> (of_char c :: nat) \<and> (of_char c :: nat) \<le> 57)"

definition decimalValue :: "string \<Rightarrow> nat" where
  "decimalValue s = foldl (\<lambda>a c. 10 * a + (of_char c - 48)) 0 s"

definition validPositiveInteger :: "string \<Rightarrow> bool" where
  "validPositiveInteger s = (s \<noteq> [] \<and> list_all isDecimalDigit s \<and> 0 < decimalValue s)"

definition parseablePositiveInteger :: "string \<Rightarrow> bool" where
  "parseablePositiveInteger s = (case parseInt s of None \<Rightarrow> False | Some n \<Rightarrow> 0 < n)"

text \<open>
  The cart invariant of the data model: at most one line item per product id, and every
  line item refers to a catalog product whose stock is at least the item's quantity.
\<close>

definition withinStock :: "item \<Rightarrow> bool" where
  "withinStock it =
     (case List.find (\<lambda>product. product_id product = item_id it) products of
        None \<Rightarrow> False
      | Some product \<Rightarrow> item_quantity it \<le> product_stock product)"

definition cartInvariant :: "item list \<Rightarrow> bool" where
  "cartInvariant cart = (distinct (map item_id cart) \<and> list_all withinStock cart)"

definition storeInvariant :: "carts \<Rightarrow> bool" where
  "storeInvariant carts = (\<forall>s. cartInvariant (cartOf carts s))"

text \<open>
  The footprint of a handler run for session \<open>s\<close>: under \<open>s\<close> it stores the cart of its
  success response, or the cart as it was when it fails, and it writes no other key.
\<close>

definition frame :: "carts \<Rightarrow> string \<Rightarrow> result \<Rightarrow> bool" where
  "frame carts s res =
     (case fst res of
        Inl e \<Rightarrow> snd res = carts(s \<mapsto> cartOf carts s)
      | Inr resp \<Rightarrow> snd res = carts(s \<mapsto> resp_cart resp) \<and>
                    resp_itemCount resp = length (resp_cart resp))"

section \<open>Helper lemmas\<close>

subsection \<open>\<open>parseInt\<close> on decimal numerals\<close>

lemma digitValue_decimal:
  "isDecimalDigit c \<Longrightarrow> digitValue 10 c = Some (of_char c - 48)"
  by (auto simp: isDecimalDigit_def digitValue_def Let_def)

lemma foldl_decimal:
  "list_all isDecimalDigit s \<Longrightarrow>
   foldl (\<lambda>a c. case digitValue 10 c of None \<Rightarrow> a | Some d \<Rightarrow> a * 10 + d) a s =
   foldl (\<lambda>a c. 10 * a + (of_char c - 48)) a s"
  by (induction s arbitrary: a) (simp_all add: digitValue_decimal mult.commute)

lemma mathInt_decimal: "list_all isDecimalDigit s \<Longrightarrow> mathInt 10 s = decimalValue s"
  by (simp add: mathInt_def decimalValue_def foldl_decimal)

lemma takeWhile_decimal:
  "list_all isDecimalDigit s \<Longrightarrow> takeWhile (\<lambda>c. digitValue 10 c \<noteq> None) s = s"
  by (induction s) (simp_all add: digitValue_decimal)

lemma digit_facts:
  assumes "isDecimalDigit c"
  shows "\<not> isWhiteSpace c" "c \<noteq> CHR ''-''" "c \<noteq> CHR ''+''" "c \<noteq> CHR ''x''" "c \<noteq> CHR ''X''"
  using assms by (auto simp: isDecimalDigit_def isWhiteSpace_def)

lemma no_hex_prefix:
  assumes "list_all isDecimalDigit s"
  shows "take 2 s \<noteq> ''0x''" "take 2 s \<noteq> ''0X''"
proof -
  have second: "isDecimalDigit d" if "s = c # d # u" for c d u
    using assms that by simp
  show "take 2 s \<noteq> ''0x''"
  proof
    assume h: "take 2 s = ''0x''"
    then obtain u where "s = CHR ''0'' # CHR ''x'' # u"
      by (cases s; cases "tl s") (auto simp: numeral_2_eq_2)
    from second[OF this] show False using digit_facts(4) by blast
  qed
  show "take 2 s \<noteq> ''0X''"
  proof
    assume h: "take 2 s = ''0X''"
    then obtain u where "s = CHR ''0'' # CHR ''X'' # u"
      by (cases s; cases "tl s") (auto simp: numeral_2_eq_2)
    from second[OF this] show False using digit_facts(5) by blast
  qed
qed

lemma parseInt_decimal:
  assumes "s \<noteq> []" "list_all isDecimalDigit s"
  shows "parseInt s = Some (int (decimalValue s))"
proof -
  obtain c t where s: "s = c # t" using assms(1) by (cases s) auto
  have c: "isDecimalDigit c" using assms(2) s by auto
  have ws: "dropWhile isWhiteSpace s = s" using digit_facts(1)[OF c] s by simp
  have sg: "take 1 s \<noteq> ''-''" "take 1 s \<noteq> ''+''"
    using s digit_facts(2,3)[OF c] by auto
  have tw: "takeWhile (\<lambda>c. digitValue 10 c \<noteq> None) s = s"
    by (rule takeWhile_decimal[OF assms(2)])
  have "parseInt s = (if s = [] then None else Some (1 * int (mathInt 10 s)))"
    unfolding parseInt_def Let_def ws
    by (simp only: sg[THEN eq_False[THEN iffD2]]
        no_hex_prefix[OF assms(2), THEN eq_False[THEN iffD2]] if_False simp_thms tw)
  then show ?thesis using assms by (simp add: mathInt_decimal)
qed

lemma parseInt_empty: "parseInt [] = None"
  by (simp add: parseInt_def)

subsection \<open>The catalog\<close>

lemma find_key_unique:
  "distinct (map f xs) \<Longrightarrow> (List.find (\<lambda>x. f x = k) xs = Some p) = (p \<in> set xs \<and> f p = k)"
  by (induction xs) auto

lemma distinct_product_ids: "distinct (map product_id products)"
  by (simp add: products_def)

lemma findProductById_iff:
  "(findProductById s = Some p) = (p \<in> set products \<and> parseInt s = Some (product_id p))"
proof (cases "parseInt s")
  case None
  then show ?thesis by (simp add: findProductById_def find_None_iff[THEN iffD2])
next
  case (Some n)
  have "(List.find (\<lambda>x. product_id x = n) products = Some p) = (p \<in> set products \<and> product_id p = n)"
    by (rule find_key_unique[OF distinct_product_ids])
  then show ?thesis using Some by (auto simp: findProductById_def)
qed

lemma find_catalog_product:
  "p \<in> set products \<Longrightarrow> List.find (\<lambda>product. product_id product = product_id p) products = Some p"
  using find_key_unique[OF distinct_product_ids, of "product_id p" p] by simp

lemma validateProductId_catalog: "validateProductId productId = Inr p \<Longrightarrow> p \<in> set products"
  by (auto simp: validateProductId_def findProductById_iff split: if_splits option.splits)

subsection \<open>\<open>findIndex\<close> and lists\<close>

lemma findIndex_ge: "- 1 \<le> findIndex P xs"
  by (induction xs) (auto simp: Let_def)

lemma findIndex_none: "(findIndex P xs = - 1) = (\<forall>x\<in>set xs. \<not> P x)"
proof (induction xs)
  case Nil
  then show ?case by simp
next
  case (Cons x xs)
  have "- 1 \<le> findIndex P xs" by (rule findIndex_ge)
  then show ?case using Cons by (auto simp: Let_def)
qed

lemma findIndex_found:
  "findIndex P xs \<noteq> - 1 \<Longrightarrow>
   0 \<le> findIndex P xs \<and> nat (findIndex P xs) < length xs \<and> P (xs ! nat (findIndex P xs)) \<and>
   (\<forall>j < nat (findIndex P xs). \<not> P (xs ! j))"
proof (induction xs)
  case Nil
  then show ?case by simp
next
  case (Cons x xs)
  show ?case
  proof (cases "P x")
    case True
    then show ?thesis by simp
  next
    case False
    with Cons.prems have ne: "findIndex P xs \<noteq> - 1" by (auto simp: Let_def split: if_splits)
    from Cons.IH[OF ne] have ih: "0 \<le> findIndex P xs" "nat (findIndex P xs) < length xs"
      "P (xs ! nat (findIndex P xs))" "\<forall>j < nat (findIndex P xs). \<not> P (xs ! j)" by auto
    have eq: "findIndex P (x # xs) = findIndex P xs + 1" using False ne by (simp add: Let_def)
    have n: "nat (findIndex P xs + 1) = Suc (nat (findIndex P xs))" using ih(1) by simp
    show ?thesis unfolding eq n using ih False
      by (auto simp: nth_Cons split: nat.splits)
  qed
qed

lemma findIndex_find:
  "List.find P xs = (if findIndex P xs = - 1 then None else Some (xs ! nat (findIndex P xs)))"
proof (induction xs)
  case Nil
  then show ?case by simp
next
  case (Cons x xs)
  have ge: "- 1 \<le> findIndex P xs" by (rule findIndex_ge)
  show ?case
  proof (cases "P x")
    case True
    then show ?thesis by simp
  next
    case False
    show ?thesis
    proof (cases "findIndex P xs = - 1")
      case True
      then show ?thesis using False Cons by (simp add: Let_def)
    next
      case ne: False
      then have "0 \<le> findIndex P xs" using ge by linarith
      then have "nat (findIndex P xs + 1) = Suc (nat (findIndex P xs))" by simp
      then show ?thesis using False ne Cons by (simp add: Let_def)
    qed
  qed
qed

lemma findIndex_append_new:
  "\<forall>x\<in>set xs. \<not> P x \<Longrightarrow> P y \<Longrightarrow> findIndex P (xs @ [y]) = int (length xs)"
  by (induction xs) (auto simp: Let_def)

lemma take_drop_nth: "take n (drop k xs) = map (nth xs) [k..<min (k + n) (length xs)]"
proof -
  have "take n (drop k (map (nth xs) [0..<length xs])) = map (nth xs) (take n [k..<length xs])"
    by (simp add: drop_map take_map)
  moreover have "take n [k..<length xs] = [k..<min (k + n) (length xs)]"
    by (cases "k + n \<le> length xs") (simp_all add: min_def)
  ultimately show ?thesis by (simp add: map_nth)
qed



subsection \<open>Binary64 rounding\<close>

lemma bitLength_bounds: "0 < n \<Longrightarrow> 2 ^ (bitLength n - 1) \<le> n \<and> n < 2 ^ bitLength n"
proof (induction n rule: bitLength.induct)
  case (1 n)
  show ?case
  proof (cases "n div 2 = 0")
    case True
    with "1.prems" have "n = 1" by (simp add: div_eq_0_iff)
    then show ?thesis by (simp add: bitLength.simps[of "Suc 0"] bitLength.simps[of 0])
  next
    case False
    then have pos: "0 < n div 2" by simp
    from "1.IH" "1.prems" pos
    have ih: "2 ^ (bitLength (n div 2) - 1) \<le> n div 2" "n div 2 < 2 ^ bitLength (n div 2)" by auto
    have bl: "bitLength n = Suc (bitLength (n div 2))" using "1.prems" by (simp add: bitLength.simps[of n])
    have gt0: "0 < bitLength (n div 2)" using pos by (simp add: bitLength.simps[of "n div 2"])
    have "2 ^ (bitLength n - 1) = 2 * 2 ^ (bitLength (n div 2) - 1)"
      using gt0 bl by (cases "bitLength (n div 2)") simp_all
    also have "\<dots> \<le> 2 * (n div 2)" using ih(1) by simp
    also have "\<dots> \<le> n" by simp
    finally have lo: "2 ^ (bitLength n - 1) \<le> n" .
    have "n < 2 * (n div 2) + 2" by presburger
    also have "\<dots> \<le> 2 * 2 ^ bitLength (n div 2)" using ih(2) by simp
    finally have hi: "n < 2 ^ bitLength n" by (simp add: bl)
    show ?thesis using lo hi by simp
  qed
qed

lemma pow2_pos: "0 < pow2 e"
  by (simp add: pow2_def)

lemma pow2_nat: "pow2 (int n) = 2 ^ n"
  by (simp add: pow2_def)

lemma pow2_neg_nat: "pow2 (- int n) = 1 / 2 ^ n"
  by (simp add: pow2_def)

lemma pow2_nonpos: "q \<le> 0 \<Longrightarrow> pow2 q = 1 / 2 ^ nat (- q)"
  by (cases "q = 0") (simp_all add: pow2_def)

lemma pow2_values:
  "pow2 0 = 1" "pow2 1 = 2" "pow2 2 = 4" "pow2 53 = 2 ^ 53" "pow2 1024 = 2 ^ 1024"
  "pow2 (- 1) = 1 / 2" "pow2 (- 2) = 1 / 4" "pow2 (- 51) = 1 / 2 ^ 51"
  "pow2 (- 52) = 1 / 2 ^ 52" "pow2 (- 53) = 1 / 2 ^ 53" "pow2 (- 54) = 1 / 2 ^ 54"
  by (simp_all add: pow2_def)

lemma pow2_add: "pow2 (a + b) = pow2 a * pow2 b"
proof -
  have nn: "pow2 (int m - int n) = 2 ^ m / 2 ^ n" for m n
  proof (cases "n \<le> m")
    case True
    then have "int m - int n = int (m - n)" by (simp add: of_nat_diff)
    then have "pow2 (int m - int n) = 2 ^ (m - n)" by (simp only: pow2_nat)
    also have "(2::rat) ^ (m - n) = 2 ^ m / 2 ^ n" using True by (simp add: power_diff)
    finally show ?thesis .
  next
    case False
    then have "int m - int n = - int (n - m)" by (simp add: of_nat_diff)
    then have "pow2 (int m - int n) = 1 / 2 ^ (n - m)" by (simp only: pow2_neg_nat)
    moreover have "(2::rat) ^ n = 2 ^ (n - m) * 2 ^ m"
      using False by (simp add: power_add[symmetric])
    ultimately show ?thesis by simp
  qed
  obtain m1 n1 where a: "a = int m1 - int n1" by (metis int_diff_cases)
  obtain m2 n2 where b: "b = int m2 - int n2" by (metis int_diff_cases)
  have "a + b = int (m1 + m2) - int (n1 + n2)" using a b by simp
  then have "pow2 (a + b) = 2 ^ (m1 + m2) / 2 ^ (n1 + n2)" by (simp only: nn)
  also have "\<dots> = (2 ^ m1 / 2 ^ n1) * (2 ^ m2 / 2 ^ n2)" by (simp add: power_add)
  finally show ?thesis by (simp add: a b nn)
qed

lemma pow2_mono: "a \<le> b \<Longrightarrow> pow2 a \<le> pow2 b"
proof -
  assume "a \<le> b"
  then obtain n where b: "b = a + int n" by (metis zle_iff_zadd)
  have "(1::rat) \<le> 2 ^ n" by simp
  then show ?thesis using pow2_pos[of a] by (simp add: b pow2_add pow2_nat)
qed

lemma pow2_strict_mono: "a < b \<Longrightarrow> pow2 a < pow2 b"
proof -
  assume "a < b"
  then have "a + 1 \<le> b" by simp
  then have "pow2 (a + 1) \<le> pow2 b" by (rule pow2_mono)
  moreover have "pow2 (a + 1) = pow2 a * 2" using pow2_add[of a 1] by (simp add: pow2_def)
  ultimately show ?thesis using pow2_pos[of a] by linarith
qed

lemma pow2_less_imp: "pow2 a < pow2 b \<Longrightarrow> a < b"
  using pow2_mono[of b a] by (cases "a < b") auto

lemma pow2_le_imp: "pow2 a \<le> pow2 b \<Longrightarrow> a \<le> b"
  using pow2_strict_mono[of b a] by (cases "a \<le> b") auto

lemma exponentOf_bounds:
  assumes "0 < a"
  shows "pow2 (exponentOf a) \<le> a \<and> a < pow2 (exponentOf a + 1)"
proof (cases "1 \<le> a")
  case True
  let ?N = "nat \<lfloor>a\<rfloor>"
  have N: "0 < ?N" using True by simp
  from bitLength_bounds[OF N]
  have b: "2 ^ (bitLength ?N - 1) \<le> ?N" "?N < 2 ^ bitLength ?N" by auto
  have bl: "0 < bitLength ?N" using N by (simp add: bitLength.simps[of ?N])
  have e: "exponentOf a = int (bitLength ?N - 1)" using True bl by (simp add: exponentOf_def)
  have "rat_of_nat (2 ^ (bitLength ?N - 1)) \<le> rat_of_nat ?N" using b(1) by (simp only: of_nat_le_iff)
  also have "rat_of_nat ?N = of_int \<lfloor>a\<rfloor>" using True by simp
  also have "\<dots> \<le> a" by simp
  finally have lo: "pow2 (exponentOf a) \<le> a" by (simp add: e pow2_nat)
  have "Suc ?N \<le> 2 ^ bitLength ?N" by (rule Suc_leI[OF b(2)])
  then have "rat_of_nat (Suc ?N) \<le> rat_of_nat (2 ^ bitLength ?N)" by (simp only: of_nat_le_iff)
  moreover have "a < rat_of_nat (Suc ?N)"
  proof -
    have "a < of_int \<lfloor>a\<rfloor> + 1" by linarith
    also have "of_int \<lfloor>a\<rfloor> + 1 = rat_of_nat (Suc ?N)" using True by simp
    finally show ?thesis .
  qed
  ultimately have "a < 2 ^ bitLength ?N" by simp
  moreover have "exponentOf a + 1 = int (bitLength ?N)" using e bl by simp
  ultimately have hi: "a < pow2 (exponentOf a + 1)" by (simp add: pow2_nat)
  show ?thesis using lo hi by simp
next
  case False
  then have a1: "a < 1" by simp
  let ?M = "nat (\<lceil>1 / a\<rceil> - 1)"
  have inv: "1 < 1 / a" using assms a1 by simp
  then have c2: "2 \<le> \<lceil>1 / a\<rceil>" by linarith
  then have M: "0 < ?M" by linarith
  from bitLength_bounds[OF M]
  have b: "2 ^ (bitLength ?M - 1) \<le> ?M" "?M < 2 ^ bitLength ?M" by auto
  have bl: "0 < bitLength ?M" using M by (simp add: bitLength.simps[of ?M])
  have e: "exponentOf a = - int (bitLength ?M)" using False by (simp add: exponentOf_def)
  have "0 \<le> \<lceil>1 / a\<rceil> - 1" using c2 by linarith
  then have Mint: "rat_of_nat ?M = of_int \<lceil>1 / a\<rceil> - 1"
    by (simp only: of_nat_nat of_int_diff of_int_1)
  have "Suc ?M \<le> 2 ^ bitLength ?M" by (rule Suc_leI[OF b(2)])
  then have "rat_of_nat (Suc ?M) \<le> rat_of_nat (2 ^ bitLength ?M)" by (simp only: of_nat_le_iff)
  then have "of_int \<lceil>1 / a\<rceil> \<le> (2::rat) ^ bitLength ?M" using Mint by simp
  moreover have "1 / a \<le> of_int \<lceil>1 / a\<rceil>" by simp
  ultimately have "1 / a \<le> 2 ^ bitLength ?M" by linarith
  then have "1 \<le> 2 ^ bitLength ?M * a" using assms by (simp add: pos_divide_le_eq)
  then have lo: "pow2 (exponentOf a) \<le> a"
    by (simp add: e pow2_neg_nat pos_divide_le_eq mult.commute)
  have "rat_of_nat (2 ^ (bitLength ?M - 1)) \<le> rat_of_nat ?M" using b(1) by (simp only: of_nat_le_iff)
  then have "(2::rat) ^ (bitLength ?M - 1) \<le> of_int \<lceil>1 / a\<rceil> - 1" using Mint by simp
  moreover have "of_int \<lceil>1 / a\<rceil> - 1 < 1 / a" by linarith
  ultimately have "(2::rat) ^ (bitLength ?M - 1) < 1 / a" by linarith
  then have "2 ^ (bitLength ?M - 1) * a < 1" using assms by (simp add: pos_less_divide_eq)
  moreover have "exponentOf a + 1 = - int (bitLength ?M - 1)" using e bl by simp
  ultimately have hi: "a < pow2 (exponentOf a + 1)"
    by (simp add: pow2_neg_nat pos_less_divide_eq mult.commute)
  show ?thesis using lo hi by simp
qed

lemma roundHalfEven_int: "roundHalfEven (of_int k) = k"
  by (simp add: roundHalfEven_def)

lemma roundHalfEven_bounds:
  "m - 1 / 2 \<le> of_int (roundHalfEven m) \<and> of_int (roundHalfEven m) \<le> m + 1 / 2"
proof -
  have "of_int \<lfloor>m\<rfloor> \<le> m" "m < of_int \<lfloor>m\<rfloor> + 1" by linarith+
  then show ?thesis by (auto simp: roundHalfEven_def Let_def; linarith)
qed

lemma roundHalfEven_le: "m \<le> of_int N \<Longrightarrow> roundHalfEven m \<le> N"
proof -
  assume h: "m \<le> of_int N"
  show ?thesis
  proof (cases "m = of_int N")
    case True
    then show ?thesis by (simp add: roundHalfEven_int)
  next
    case False
    then have "m < of_int N" using h by simp
    then have "\<lfloor>m\<rfloor> < N" by (simp add: floor_less_iff)
    then have "\<lfloor>m\<rfloor> + 1 \<le> N" by simp
    then show ?thesis by (auto simp: roundHalfEven_def Let_def)
  qed
qed

text \<open>Integers up to \<open>2 ^ 53\<close> in magnitude are binary64 values: rounding leaves them as they are.\<close>

lemma fl_int:
  assumes "\<bar>k\<bar> \<le> 2 ^ 53"
  shows "fl (of_int k) = Num (of_int k)"
proof (cases "k = 0")
  case True
  then show ?thesis by (simp add: fl_def)
next
  case False
  define a where "a = \<bar>rat_of_int k\<bar>"
  define e where "e = exponentOf a"
  define q where "q = max e (- 1022) - 52"
  define y where "y = of_int (roundHalfEven (a / pow2 q)) * pow2 q"
  have a_int: "a = of_int \<bar>k\<bar>" by (simp add: a_def)
  have a1: "1 \<le> a" using False unfolding a_int by (simp del: of_int_abs)
  have a53: "a \<le> 2 ^ 53"
  proof -
    have "rat_of_int \<bar>k\<bar> \<le> rat_of_int (2 ^ 53)" using assms by (simp only: of_int_le_iff)
    then show ?thesis unfolding a_int by simp
  qed
  have apos: "0 < a" using a1 by linarith
  from exponentOf_bounds[OF apos]
  have eb: "pow2 e \<le> a" "a < pow2 (e + 1)" by (auto simp: e_def)
  have "pow2 0 < pow2 (e + 1)" using a1 eb(2) by (simp only: pow2_values)
  then have e0: "0 \<le> e" using pow2_less_imp[of 0 "e + 1"] by simp
  have "pow2 e \<le> pow2 53" using eb(1) a53 by (simp only: pow2_values)
  then have e53: "e \<le> 53" by (rule pow2_le_imp)
  have q: "q = e - 52" using e0 by (simp add: q_def)
  have exact: "y = a"
  proof (cases "e = 53")
    case True
    then have "pow2 53 \<le> a" using eb(1) by simp
    then have a: "a = 2 ^ 53" using a53 by (simp add: pow2_values)
    have q1: "q = 1" using q True by simp
    have "a / pow2 q = of_int (2 ^ 52)" unfolding q1 a by (simp add: pow2_values)
    then have "roundHalfEven (a / pow2 q) = 2 ^ 52" by (simp only: roundHalfEven_int)
    then show ?thesis unfolding y_def by (simp add: q1 a pow2_values)
  next
    case False
    then have qle: "q \<le> 0" using e53 q by simp
    define s where "s = (2::int) ^ nat (- q)"
    have p: "pow2 q = 1 / of_int s" using pow2_nonpos[OF qle] by (simp add: s_def)
    have spos: "0 < rat_of_int s" by (simp add: s_def)
    have "a / pow2 q = of_int (\<bar>k\<bar> * s)" unfolding p a_int by simp
    then have "roundHalfEven (a / pow2 q) = \<bar>k\<bar> * s" by (simp only: roundHalfEven_int)
    then show ?thesis unfolding y_def p a_int using spos by simp
  qed
  have small: "\<not> pow2 1024 \<le> y"
  proof -
    have "(2::rat) ^ 53 < 2 ^ 1024" by (rule power_strict_increasing) simp_all
    then show ?thesis using a53 exact by (simp add: pow2_values)
  qed
  have "fl (of_int k) =
      (if pow2 1024 \<le> y then (if 0 < rat_of_int k then PosInfinity else NegInfinity)
       else Num (if 0 < rat_of_int k then y else - y))"
    using False by (simp add: fl_def Let_def y_def q_def e_def a_def)
  then have "fl (of_int k) = Num (if 0 < rat_of_int k then a else - a)"
    using small exact by simp
  then show ?thesis by (simp add: a_def abs_if)
qed

text \<open>
  For an array length \<open>n\<close> and an integer \<open>l\<close>, both below \<open>2 ^ 53\<close>, rounding the quotient
  never reaches the integer below it, so the ceiling of the rounded quotient is the
  ceiling of the exact one.
\<close>

lemma ceilOfQuotient_int:
  assumes n: "n < 2 ^ 53" and l: "0 < l" "l \<le> 2 ^ 53"
  shows "ceilOfQuotient n (Num (of_int l)) = Some \<lceil>rat_of_nat n / rat_of_int l\<rceil>"
proof (cases "n = 0")
  case True
  then show ?thesis using l by (simp add: ceilOfQuotient_def fl_def)
next
  case False
  define x where "x = rat_of_nat n / rat_of_int l"
  define e where "e = exponentOf x"
  define q where "q = max e (- 1022) - 52"
  define k where "k = \<lceil>x\<rceil>"
  define m where "m = x / pow2 q"
  define r where "r = roundHalfEven m"
  define y where "y = of_int r * pow2 q"
  have lpos: "0 < rat_of_int l" using l by simp
  have npos: "0 < rat_of_nat n" using False by simp
  have xpos: "0 < x" using lpos npos by (simp add: x_def)
  have n53: "rat_of_nat n < 2 ^ 53"
  proof -
    have "rat_of_nat n < rat_of_nat (2 ^ 53)" using n by (simp only: of_nat_less_iff)
    then show ?thesis by simp
  qed
  have l53: "rat_of_int l \<le> 2 ^ 53"
  proof -
    have "rat_of_int l \<le> rat_of_int (2 ^ 53)" using l(2) by (simp only: of_int_le_iff)
    then show ?thesis by simp
  qed
  have l1: "1 \<le> rat_of_int l" using l(1) by simp
  have xl: "x * rat_of_int l = rat_of_nat n" using lpos by (simp add: x_def)
  have x_le_n: "x \<le> rat_of_nat n"
  proof -
    have "x * 1 \<le> x * rat_of_int l" using l1 xpos by (simp only: mult_le_cancel_left_pos)
    then show ?thesis using xl by simp
  qed
  have x53: "x < 2 ^ 53" using x_le_n n53 by linarith
  have x_ge_inv: "1 / rat_of_int l \<le> x"
  proof -
    have "1 \<le> rat_of_nat n" using False by simp
    then show ?thesis unfolding x_def using lpos by (simp add: divide_le_cancel)
  qed
  have x_ge: "1 / 2 ^ 53 \<le> x"
  proof -
    have "1 / 2 ^ 53 \<le> 1 / rat_of_int l" using l53 lpos by (simp add: frac_le)
    then show ?thesis using x_ge_inv by linarith
  qed
  from exponentOf_bounds[OF xpos]
  have eb: "pow2 e \<le> x" "x < pow2 (e + 1)" by (auto simp: e_def)
  have "pow2 (- 53) < pow2 (e + 1)" using x_ge eb(2) by (simp only: pow2_values)
  then have elo: "- 54 < e" using pow2_less_imp[of "- 53" "e + 1"] by simp
  have "pow2 e < pow2 53" using eb(1) x53 by (simp only: pow2_values)
  then have ehi: "e < 53" by (rule pow2_less_imp)
  have q: "q = e - 52" using elo by (simp add: q_def)
  have qle: "q \<le> 0" using ehi q by simp
  define s where "s = (2::int) ^ nat (- q)"
  have p: "pow2 q = 1 / of_int s" using pow2_nonpos[OF qle] by (simp add: s_def)
  have spos: "0 < rat_of_int s" by (simp add: s_def)
  have m: "m = x * of_int s" unfolding m_def p by simp
  have y: "y = of_int r / of_int s" unfolding y_def p by simp
  have xk: "x \<le> of_int k" by (simp add: k_def)
  have upper: "y \<le> of_int k"
  proof -
    have "m \<le> of_int k * of_int s"
      unfolding m using xk spos by (simp only: mult_le_cancel_right_pos)
    then have "m \<le> of_int (k * s)" by simp
    then have "r \<le> k * s" unfolding r_def by (rule roundHalfEven_le)
    then have "rat_of_int r \<le> rat_of_int (k * s)" by (simp only: of_int_le_iff)
    then show ?thesis unfolding y using spos by (simp add: pos_divide_le_eq)
  qed
  have lower: "of_int k - 1 < y"
  proof (cases "x = of_int k")
    case True
    then have "m = of_int (k * s)" unfolding m by simp
    then have "r = k * s" unfolding r_def by (simp only: roundHalfEven_int)
    then have "y = of_int k" unfolding y using spos by simp
    then show ?thesis by simp
  next
    case False
    define j where "j = k - 1"
    have jx: "of_int j < x" unfolding j_def k_def by linarith
    have gap: "1 / rat_of_int l \<le> x - of_int j"
    proof -
      have "rat_of_int j * rat_of_int l < x * rat_of_int l"
        using jx lpos by (simp only: mult_less_cancel_right_pos)
      then have "rat_of_int (j * l) < rat_of_int (int n)" using xl by simp
      then have "j * l < int n" by (simp only: of_int_less_iff)
      then have "j * l + 1 \<le> int n" by simp
      then have "rat_of_int (j * l + 1) \<le> rat_of_int (int n)" by (simp only: of_int_le_iff)
      then have "rat_of_int j * rat_of_int l + 1 \<le> x * rat_of_int l" using xl by simp
      then have "(rat_of_int j + 1 / rat_of_int l) * rat_of_int l \<le> x * rat_of_int l"
        using lpos by (simp add: algebra_simps)
      then have "rat_of_int j + 1 / rat_of_int l \<le> x"
        using lpos by (simp only: mult_le_cancel_right_pos)
      then show ?thesis by linarith
    qed
    have ulp: "pow2 q \<le> x / 2 ^ 52"
    proof -
      have "pow2 q = pow2 e * pow2 (- 52)" unfolding q using pow2_add[of e "- 52"] by simp
      also have "\<dots> = pow2 e / 2 ^ 52" by (simp add: pow2_values)
      also have "\<dots> \<le> x / 2 ^ 52" using eb(1) by (simp add: divide_right_mono)
      finally show ?thesis .
    qed
    have err: "x - pow2 q / 2 \<le> y"
    proof -
      have "m - 1 / 2 \<le> of_int r" unfolding r_def using roundHalfEven_bounds[of m] by simp
      then have "(m - 1 / 2) * pow2 q \<le> of_int r * pow2 q"
        using pow2_pos[of q] by (simp only: mult_le_cancel_right_pos)
      moreover have "(m - 1 / 2) * pow2 q = x - pow2 q / 2"
        unfolding m_def using pow2_pos[of q] by (simp add: algebra_simps)
      ultimately show ?thesis unfolding y_def by simp
    qed
    have "x / 2 ^ 53 < 1 / rat_of_int l"
    proof -
      have "x * rat_of_int l < 2 ^ 53" using xl n53 by simp
      then have "x < 2 ^ 53 / rat_of_int l" using lpos by (simp add: pos_less_divide_eq)
      then have "x / 2 ^ 53 < (2 ^ 53 / rat_of_int l) / 2 ^ 53"
        by (simp only: divide_strict_right_mono zero_less_power zero_less_numeral)
      then show ?thesis by simp
    qed
    moreover have "pow2 q / 2 \<le> x / 2 ^ 53" using ulp by simp
    ultimately have "pow2 q / 2 < x - of_int j" using gap by linarith
    then show ?thesis using err unfolding j_def by simp
  qed
  have small: "\<not> pow2 1024 \<le> y"
  proof -
    have "(2::rat) ^ 53 < 2 ^ 1024" by (rule power_strict_increasing) simp_all
    moreover have "rat_of_int k \<le> rat_of_nat n"
    proof -
      have "k \<le> int n" unfolding k_def using x_le_n by (simp add: ceiling_le_iff)
      then have "rat_of_int k \<le> rat_of_int (int n)" by (simp only: of_int_le_iff)
      then show ?thesis by simp
    qed
    ultimately have "y < 2 ^ 1024" using upper n53 by linarith
    then show ?thesis by (simp add: pow2_values)
  qed
  have "fl x = (if pow2 1024 \<le> y then PosInfinity else Num y)"
    using xpos by (simp add: fl_def Let_def y_def r_def m_def q_def e_def)
  then have "fl x = Num y" using small by simp
  moreover have "\<lceil>y\<rceil> = k" using lower upper by (intro ceiling_unique) simp_all
  ultimately show ?thesis using l(1) by (simp add: ceilOfQuotient_def x_def k_def)
qed

text \<open>Evaluating \<open>fl\<close> at a given rational from its exponent.\<close>

lemma exponentOf_unique:
  assumes "pow2 e \<le> x" "x < pow2 (e + 1)"
  shows "exponentOf x = e"
proof -
  have xpos: "0 < x" using assms(1) pow2_pos[of e] by linarith
  from exponentOf_bounds[OF xpos]
  have b: "pow2 (exponentOf x) \<le> x" "x < pow2 (exponentOf x + 1)" by auto
  have "pow2 e < pow2 (exponentOf x + 1)" using assms(1) b(2) by linarith
  then have "e < exponentOf x + 1" by (rule pow2_less_imp)
  moreover have "pow2 (exponentOf x) < pow2 (e + 1)" using assms(2) b(1) by linarith
  then have "exponentOf x < e + 1" by (rule pow2_less_imp)
  ultimately show ?thesis by simp
qed

lemma fl_normal:
  assumes lo: "pow2 e \<le> x" and hi: "x < pow2 (e + 1)" and e: "- 1022 \<le> e" "e \<le> 1022"
  shows "fl x = Num (of_int (roundHalfEven (x / pow2 (e - 52))) * pow2 (e - 52))"
proof -
  define q where "q = e - 52"
  define r where "r = roundHalfEven (x / pow2 q)"
  have xpos: "0 < x" using lo pow2_pos[of e] by linarith
  have ex: "exponentOf x = e" by (rule exponentOf_unique[OF lo hi])
  have "e + 1 = 53 + q" by (simp add: q_def)
  then have "pow2 (e + 1) = pow2 53 * pow2 q" by (simp only: pow2_add)
  then have split: "pow2 (e + 1) = 2 ^ 53 * pow2 q" by (simp only: pow2_values)
  have "x / pow2 q < 2 ^ 53"
    using hi pow2_pos[of q] unfolding split by (simp add: pos_divide_less_eq)
  then have "x / pow2 q \<le> of_int (2 ^ 53)" by simp
  then have "r \<le> 2 ^ 53" unfolding r_def by (rule roundHalfEven_le)
  then have "rat_of_int r \<le> rat_of_int (2 ^ 53)" by (simp only: of_int_le_iff)
  then have "of_int r * pow2 q \<le> 2 ^ 53 * pow2 q"
    using pow2_pos[of q] by (simp add: mult_right_mono)
  also have "\<dots> = pow2 (e + 1)" by (simp only: split)
  also have "\<dots> < pow2 1024" using e by (intro pow2_strict_mono) simp
  finally have small: "\<not> pow2 1024 \<le> of_int r * pow2 q" by simp
  have "fl x = (if pow2 1024 \<le> of_int r * pow2 q then PosInfinity else Num (of_int r * pow2 q))"
    using xpos e by (simp add: fl_def Let_def ex r_def q_def)
  then show ?thesis using small by (simp add: r_def q_def)
qed

lemma roundHalfEven_down: "of_int f \<le> m \<Longrightarrow> m - of_int f < 1 / 2 \<Longrightarrow> roundHalfEven m = f"
proof -
  assume a: "of_int f \<le> m" "m - of_int f < 1 / 2"
  then have "\<lfloor>m\<rfloor> = f" by (intro floor_unique) simp_all
  then show ?thesis using a by (simp add: roundHalfEven_def Let_def)
qed

lemma roundHalfEven_tie_odd: "m = of_int f + 1 / 2 \<Longrightarrow> odd f \<Longrightarrow> roundHalfEven m = f + 1"
proof -
  assume a: "m = of_int f + 1 / 2" "odd f"
  then have "\<lfloor>m\<rfloor> = f" by (intro floor_unique) simp_all
  then show ?thesis using a by (simp add: roundHalfEven_def Let_def)
qed

lemma fl_normal_value:
  assumes "pow2 e \<le> x" "x < pow2 (e + 1)" "- 1022 \<le> e" "e \<le> 1022"
    and "roundHalfEven (x / pow2 (e - 52)) = r" and "of_int r * pow2 (e - 52) = y"
  shows "fl x = Num y"
  using fl_normal[OF assms(1-4)] assms(5,6) by simp

lemma fl_examples:
  "fl (3 / 2) = Num (3 / 2)"
  "fl (13333333333333333 / 10 ^ 16) = Num (6004799503160661 / 4503599627370496)"
  "fl (1501199875790165 / 4503599627370496) = Num (1501199875790165 / 4503599627370496)"
  "fl (4503599627370495 / 4503599627370496) = Num (4503599627370495 / 4503599627370496)"
  "fl (18014398509481983 / 4503599627370496) = Num 4"
proof -
  show "fl (3 / 2) = Num (3 / 2)"
    by (rule fl_normal_value[where e = 0 and r = 6755399441055744])
       (simp_all add: pow2_values roundHalfEven_down)
  show "fl (13333333333333333 / 10 ^ 16) = Num (6004799503160661 / 4503599627370496)"
    by (rule fl_normal_value[where e = 0 and r = 6004799503160661])
       (simp_all add: pow2_values roundHalfEven_down)
  show "fl (1501199875790165 / 4503599627370496) = Num (1501199875790165 / 4503599627370496)"
    by (rule fl_normal_value[where e = "- 2" and r = 6004799503160660])
       (simp_all add: pow2_values roundHalfEven_down)
  show "fl (4503599627370495 / 4503599627370496) = Num (4503599627370495 / 4503599627370496)"
    by (rule fl_normal_value[where e = "- 1" and r = 9007199254740990])
       (simp_all add: pow2_values roundHalfEven_down)
  show "fl (18014398509481983 / 4503599627370496) = Num 4"
    by (rule fl_normal_value[where e = 1 and r = 9007199254740992])
       (simp_all add: pow2_values roundHalfEven_tie_odd[where f = 9007199254740991])
qed

subsection \<open>\<open>slice\<close> and the arithmetic of the listing on integers\<close>

lemma relativeIndex_le: "relativeIndex len v \<le> len"
  by (cases v) (auto simp: relativeIndex_def)

lemma slice_nth:
  "slice xs s e = map (nth xs) [relativeIndex (length xs) s..<relativeIndex (length xs) e]"
proof -
  let ?k = "relativeIndex (length xs) s"
  let ?f = "relativeIndex (length xs) e"
  have f: "?f \<le> length xs" by (rule relativeIndex_le)
  have "slice xs s e = map (nth xs) [?k..<min (?k + (?f - ?k)) (length xs)]"
    by (simp add: slice_def Let_def take_drop_nth)
  moreover have "[?k..<min (?k + (?f - ?k)) (length xs)] = [?k..<?f]"
    using f by (cases "?k \<le> ?f") (simp_all add: min_def)
  ultimately show ?thesis by simp
qed

lemma truncate_rat_int: "truncate_rat (of_int i) = i"
  by (simp add: truncate_rat_def)

lemma relativeIndex_int:
  "relativeIndex len (Num (of_int i)) =
     (if i < 0 then nat (max (int len + i) 0) else nat (min i (int len)))"
  by (simp add: relativeIndex_def truncate_rat_int)

lemma numberSubtract_int:
  "\<bar>a - b\<bar> \<le> 2 ^ 53 \<Longrightarrow>
   numberSubtract (Num (of_int a)) (Num (of_int b)) = Num (of_int (a - b))"
  using fl_int[of "a - b"] by (simp add: numberSubtract_def)

lemma numberMultiply_int:
  "\<bar>a * b\<bar> \<le> 2 ^ 53 \<Longrightarrow>
   numberMultiply (Num (of_int a)) (Num (of_int b)) = Num (of_int (a * b))"
  using fl_int[of "a * b"] by (simp add: numberMultiply_def)

lemma numberLess_int:
  "numberLess (Num (of_int a)) (Num (of_int b)) = (a < b)"
  by (simp add: numberLess_def)

text \<open>The two indices of the listing for an integer page \<open>p\<close> and an integer limit \<open>l\<close>.\<close>

lemma listing_indices:
  assumes l: "0 < l" and range: "(\<bar>p\<bar> + 1) * l \<le> 2 ^ 53"
  shows "numberMultiply (numberSubtract (Num (of_int p)) (Num 1)) (Num (of_int l)) =
           Num (of_int ((p - 1) * l))"
    and "numberMultiply (Num (of_int p)) (Num (of_int l)) = Num (of_int (p * l))"
    and "l \<le> 2 ^ 53"
proof -
  have l1: "1 \<le> l" using l by simp
  have nn: "0 \<le> \<bar>p\<bar> + 1" by simp
  have "(\<bar>p\<bar> + 1) * 1 \<le> (\<bar>p\<bar> + 1) * l" using l1 nn by (rule mult_left_mono)
  then have a: "\<bar>p\<bar> + 1 \<le> (\<bar>p\<bar> + 1) * l" by simp
  have b: "\<bar>p - 1\<bar> \<le> \<bar>p\<bar> + 1" by simp
  have sub: "\<bar>p - 1\<bar> \<le> 2 ^ 53" using a b range by linarith
  have "\<bar>(p - 1) * l\<bar> = \<bar>p - 1\<bar> * l" using l by (simp add: abs_mult)
  also have "\<dots> \<le> (\<bar>p\<bar> + 1) * l" using b l by (simp only: mult_right_mono)
  finally have m1: "\<bar>(p - 1) * l\<bar> \<le> 2 ^ 53" using range by linarith
  have "\<bar>p * l\<bar> = \<bar>p\<bar> * l" using l by (simp add: abs_mult)
  also have "\<dots> \<le> (\<bar>p\<bar> + 1) * l" using l by (simp add: mult_right_mono)
  finally have m2: "\<bar>p * l\<bar> \<le> 2 ^ 53" using range by linarith
  have "numberSubtract (Num (of_int p)) (Num 1) = Num (of_int (p - 1))"
    using numberSubtract_int[of p 1] sub by simp
  then show "numberMultiply (numberSubtract (Num (of_int p)) (Num 1)) (Num (of_int l)) =
           Num (of_int ((p - 1) * l))"
    using numberMultiply_int[OF m1] by simp
  show "numberMultiply (Num (of_int p)) (Num (of_int l)) = Num (of_int (p * l))"
    by (rule numberMultiply_int[OF m2])
  have "1 * l \<le> (\<bar>p\<bar> + 1) * l" using l by (intro mult_right_mono) simp_all
  then show "l \<le> 2 ^ 53" using range by simp
qed

lemma slice_int_length:
  assumes "b - a = l" "0 < l"
  shows "int (length (slice xs (Num (of_int a)) (Num (of_int b)))) \<le> l"
  using assms by (auto simp: slice_def Let_def relativeIndex_int)

lemma slice_int_nonneg:
  assumes "0 \<le> a" "a \<le> b"
  shows "slice xs (Num (of_int a)) (Num (of_int b)) =
           map (nth xs) [nat a..<min (nat b) (length xs)]"
proof (cases "a \<le> int (length xs)")
  case True
  then have "relativeIndex (length xs) (Num (of_int a)) = nat a"
    using assms by (simp add: relativeIndex_int min_def)
  moreover have "[nat a..<relativeIndex (length xs) (Num (of_int b))] =
                 [nat a..<min (nat b) (length xs)]"
    using assms by (auto simp: relativeIndex_int min_def)
  ultimately show ?thesis by (simp add: slice_nth)
next
  case False
  then have "relativeIndex (length xs) (Num (of_int a)) = length xs"
    using assms by (simp add: relativeIndex_int min_def)
  moreover have "relativeIndex (length xs) (Num (of_int b)) \<le> length xs"
    by (rule relativeIndex_le)
  moreover have "[nat a..<min (nat b) (length xs)] = []" using False by simp
  ultimately show ?thesis by (simp add: slice_nth)
qed

lemma slice_int_negative:
  assumes "a < 0" "b < 0"
  shows "slice xs (Num (of_int a)) (Num (of_int b)) =
           map (nth xs) [nat (int (length xs) + a)..<nat (int (length xs) + b)]"
  using assms by (simp add: slice_nth relativeIndex_int max_def)

lemma slice_int_to_zero:
  "slice xs (Num (of_int a)) (Num 0) = []"
  using relativeIndex_int[of "length xs" 0] by (simp add: slice_nth)

subsection \<open>The handlers in terms of the session's cart\<close>

lemma getOrCreateCart_eq:
  "getOrCreateCart carts s = (carts(s \<mapsto> cartOf carts s), cartOf carts s)"
  by (auto simp: getOrCreateCart_def cartOf_def split: option.splits)

lemma cartOf_upd: "cartOf (carts(s \<mapsto> c)) t = (if t = s then c else cartOf carts t)"
  by (simp add: cartOf_def)

lemma cartOf_touch: "cartOf (carts(s \<mapsto> cartOf carts s)) t = cartOf carts t"
  by (simp add: cartOf_upd)

lemma touch_existing: "carts s \<noteq> None \<Longrightarrow> carts(s \<mapsto> cartOf carts s) = carts"
  by (auto simp: cartOf_def)

lemma touch_absent: "carts s = None \<Longrightarrow> carts(s \<mapsto> cartOf carts s) = carts(s \<mapsto> [])"
  by (simp add: cartOf_def)

lemma addItem_unfold:
  "addItem carts s p q =
     (let quantity = withDefault 1 q;
          cart = cartOf carts s;
          i = findIndex (\<lambda>item. item_id item = product_id p) cart
      in if quantity > product_stock p
         then (Inl (InsufficientStock (product_stock p)), carts(s \<mapsto> cart))
         else if i \<noteq> - 1
         then if item_quantity (cart ! nat i) + quantity > product_stock p
              then (Inl (StockLimitExceeded quantity (product_stock p)), carts(s \<mapsto> cart))
              else (Inr (okResponse 201
                      (cart[nat i := (cart ! nat i)\<lparr>item_quantity :=
                                        item_quantity (cart ! nat i) + quantity\<rparr>]) None),
                    carts(s \<mapsto> cart[nat i := (cart ! nat i)\<lparr>item_quantity :=
                                        item_quantity (cart ! nat i) + quantity\<rparr>]))
         else (Inr (okResponse 201 (cart @ [newItem p quantity]) None),
               carts(s \<mapsto> cart @ [newItem p quantity])))"
proof -
  have "- 1 \<le> findIndex (\<lambda>item. item_id item = product_id p) (cartOf carts s)"
    by (rule findIndex_ge)
  then have "(findIndex (\<lambda>item. item_id item = product_id p) (cartOf carts s) > - 1) =
             (findIndex (\<lambda>item. item_id item = product_id p) (cartOf carts s) \<noteq> - 1)"
    by linarith
  then show ?thesis
    by (simp add: addItem_def getOrCreateCart_eq Let_def newItem_def)
qed

lemma updateItem_unfold:
  "updateItem carts s p q =
     (let cart = cartOf carts s;
          i = findIndex (\<lambda>item. item_id item = product_id p) cart
      in if q = None \<or> q = Some 0 then (Inl QuantityRequired, carts(s \<mapsto> cart))
         else if i = - 1 then (Inl NotFound, carts(s \<mapsto> cart))
         else if the q > product_stock p
         then (Inl (InsufficientStock (product_stock p)), carts(s \<mapsto> cart))
         else (Inr (okResponse 200 (cart[nat i := (cart ! nat i)\<lparr>item_quantity := the q\<rparr>]) None),
               carts(s \<mapsto> cart[nat i := (cart ! nat i)\<lparr>item_quantity := the q\<rparr>])))"
  by (cases q) (simp_all add: updateItem_def getOrCreateCart_eq Let_def)

lemma removeItem_unfold:
  "removeItem carts s productId =
     (let cart = cartOf carts s;
          i = findIndex (\<lambda>item. Some (item_id item) = parseInt productId) cart
      in if productId = [] \<or> parseInt productId = None then (Inl InvalidId, carts(s \<mapsto> cart))
         else if i = - 1 then (Inl NotFound, carts(s \<mapsto> cart))
         else (Inr (okResponse 200 (splice1 cart (nat i)) (Some (cart ! nat i))),
               carts(s \<mapsto> splice1 cart (nat i))))"
  by (simp add: removeItem_def getOrCreateCart_eq Let_def)

lemma clearCart_unfold:
  "clearCart carts s =
     (if cartOf carts s = [] then (Inl AlreadyEmpty, carts(s \<mapsto> cartOf carts s))
      else (Inr (okResponse 200 [] None), carts(s \<mapsto> [])))"
  by (simp add: clearCart_def getOrCreateCart_eq Let_def okResponse_def)

lemma getCart_unfold:
  "getCart carts s = (Inr (okResponse 200 (cartOf carts s) None), carts(s \<mapsto> cartOf carts s))"
  by (simp add: getCart_def getOrCreateCart_eq Let_def)

subsection \<open>Footprint of the handlers\<close>

lemma frame_addItem: "frame carts s (addItem carts s p q)"
  by (simp add: frame_def addItem_unfold Let_def okResponse_def)

lemma frame_updateItem: "frame carts s (updateItem carts s p q)"
  by (simp add: frame_def updateItem_unfold Let_def okResponse_def)

lemma frame_removeItem: "frame carts s (removeItem carts s productId)"
  by (simp add: frame_def removeItem_unfold Let_def okResponse_def)

lemma frame_clearCart: "frame carts s (clearCart carts s)"
  by (simp add: frame_def clearCart_unfold Let_def okResponse_def)

lemma frame_getCart: "frame carts s (getCart carts s)"
  by (simp add: frame_def getCart_unfold Let_def okResponse_def)

lemma handle_cases:
  "snd (handle request carts) = carts \<and> (\<exists>e. fst (handle request carts) = Inl e) \<or>
   frame carts (sessionOf request) (handle request carts)"
proof (cases request)
  case (POST_cart header uuid productId q)
  then show ?thesis
    by (auto simp: frame_addItem split: sum.splits)
next
  case (GET_cart header uuid)
  then show ?thesis by (simp add: frame_getCart)
next
  case (PUT_cart header uuid productId q)
  then show ?thesis by (auto simp: frame_updateItem split: sum.splits)
next
  case (DELETE_cart_item header uuid productId)
  then show ?thesis by (simp add: frame_removeItem)
next
  case (DELETE_cart header uuid)
  then show ?thesis by (simp add: frame_clearCart)
qed

text \<open>The response of a request depends on the store through the session's own cart only.\<close>

lemma response_depends_on_own_cart:
  assumes "cartOf carts (sessionOf request) = cartOf carts' (sessionOf request)"
  shows "fst (handle request carts) = fst (handle request carts')"
proof (cases request)
  case (POST_cart header uuid productId q)
  then show ?thesis
    using assms by (auto simp: addItem_unfold Let_def split: sum.splits)
next
  case (GET_cart header uuid)
  then show ?thesis using assms by (simp add: getCart_unfold)
next
  case (PUT_cart header uuid productId q)
  then show ?thesis
    using assms by (auto simp: updateItem_unfold Let_def split: sum.splits)
next
  case (DELETE_cart_item header uuid productId)
  then show ?thesis using assms by (simp add: removeItem_unfold Let_def)
next
  case (DELETE_cart header uuid)
  then show ?thesis using assms by (simp add: clearCart_unfold)
qed

subsection \<open>Preservation of the cart invariant\<close>

lemma withinStock_catalog:
  "p \<in> set products \<Longrightarrow> item_id it = product_id p \<Longrightarrow>
   withinStock it = (item_quantity it \<le> product_stock p)"
  by (simp add: withinStock_def find_catalog_product)

lemma cartInvariant_update:
  assumes inv: "cartInvariant cart" and i: "i < length cart"
    and p: "p \<in> set products" "item_id (cart ! i) = product_id p" and n: "n \<le> product_stock p"
  shows "cartInvariant (cart[i := (cart ! i)\<lparr>item_quantity := n\<rparr>])"
proof -
  let ?it = "(cart ! i)\<lparr>item_quantity := n\<rparr>"
  have ids: "map item_id (cart[i := ?it]) = map item_id cart"
    using i by (simp add: map_update list_update_same_conv)
  have new: "withinStock ?it" using p n by (simp add: withinStock_catalog[OF p(1)])
  have "set (cart[i := ?it]) \<subseteq> insert ?it (set cart)" by (rule set_update_subset_insert)
  then have "list_all withinStock (cart[i := ?it])"
    using inv new by (auto simp: cartInvariant_def list_all_iff)
  then show ?thesis using inv ids by (simp add: cartInvariant_def)
qed

lemma cartInvariant_append:
  assumes inv: "cartInvariant cart" and fresh: "\<forall>it\<in>set cart. item_id it \<noteq> product_id p"
    and p: "p \<in> set products" and n: "n \<le> product_stock p"
  shows "cartInvariant (cart @ [newItem p n])"
proof -
  have "withinStock (newItem p n)"
    using n by (simp add: withinStock_catalog[OF p] newItem_def)
  moreover have "product_id p \<notin> item_id ` set cart" using fresh by auto
  ultimately show ?thesis using inv by (simp add: cartInvariant_def newItem_def)
qed

lemma distinct_remove_nth: "distinct xs \<Longrightarrow> distinct (take i xs @ drop (Suc i) xs)"
proof (induction xs arbitrary: i)
  case Nil
  then show ?case by simp
next
  case (Cons x xs)
  show ?case
  proof (cases i)
    case 0
    then show ?thesis using Cons.prems by simp
  next
    case (Suc k)
    have "set (take k xs @ drop (Suc k) xs) \<subseteq> set xs"
      using set_take_subset set_drop_subset by fastforce
    then show ?thesis using Suc Cons by auto
  qed
qed

lemma cartInvariant_splice1:
  assumes inv: "cartInvariant cart"
  shows "cartInvariant (splice1 cart i)"
proof -
  have "distinct (take i (map item_id cart) @ drop (Suc i) (map item_id cart))"
    using inv by (intro distinct_remove_nth) (simp add: cartInvariant_def)
  then have "distinct (map item_id (take i cart @ drop (Suc i) cart))"
    by (simp add: take_map drop_map)
  moreover have "set (take i cart @ drop (Suc i) cart) \<subseteq> set cart"
    using set_take_subset set_drop_subset by fastforce
  ultimately show ?thesis using inv
    by (auto simp: cartInvariant_def splice1_def list_all_iff)
qed

lemma storeInvariant_upd:
  "storeInvariant carts \<Longrightarrow> cartInvariant c \<Longrightarrow> storeInvariant (carts(s \<mapsto> c))"
  by (simp add: storeInvariant_def cartOf_upd)

lemma storeInvariant_addItem:
  assumes inv: "storeInvariant carts" and p: "p \<in> set products"
  shows "storeInvariant (snd (addItem carts s p q))"
proof -
  let ?P = "\<lambda>item. item_id item = product_id p"
  let ?c = "cartOf carts s"
  let ?i = "findIndex ?P ?c"
  let ?n = "withDefault 1 q"
  have c: "cartInvariant ?c" using inv by (simp add: storeInvariant_def)
  have same: "storeInvariant (carts(s \<mapsto> ?c))" by (rule storeInvariant_upd[OF inv c])
  have app: "?i = - 1 \<Longrightarrow> ?n \<le> product_stock p \<Longrightarrow> cartInvariant (?c @ [newItem p ?n])"
    by (rule cartInvariant_append[OF c _ p]) (simp_all add: findIndex_none)
  have upd: "?i \<noteq> - 1 \<Longrightarrow> m \<le> product_stock p \<Longrightarrow>
     cartInvariant (?c[nat ?i := (?c ! nat ?i)\<lparr>item_quantity := m\<rparr>])" for m
    using findIndex_found[of ?P ?c] by (intro cartInvariant_update[OF c _ p]) simp_all
  show ?thesis
    using same app upd inv
    by (auto simp: addItem_unfold Let_def intro!: storeInvariant_upd)
qed

lemma storeInvariant_updateItem:
  assumes inv: "storeInvariant carts" and p: "p \<in> set products"
  shows "storeInvariant (snd (updateItem carts s p q))"
proof -
  let ?P = "\<lambda>item. item_id item = product_id p"
  let ?c = "cartOf carts s"
  let ?i = "findIndex ?P ?c"
  have c: "cartInvariant ?c" using inv by (simp add: storeInvariant_def)
  have same: "storeInvariant (carts(s \<mapsto> ?c))" by (rule storeInvariant_upd[OF inv c])
  have upd: "?i \<noteq> - 1 \<Longrightarrow> m \<le> product_stock p \<Longrightarrow>
     cartInvariant (?c[nat ?i := (?c ! nat ?i)\<lparr>item_quantity := m\<rparr>])" for m
    using findIndex_found[of ?P ?c] by (intro cartInvariant_update[OF c _ p]) simp_all
  show ?thesis
    using same upd inv
    by (auto simp: updateItem_unfold Let_def intro!: storeInvariant_upd)
qed

lemma storeInvariant_removeItem:
  assumes inv: "storeInvariant carts"
  shows "storeInvariant (snd (removeItem carts s productId))"
proof -
  have c: "cartInvariant (cartOf carts s)" using inv by (simp add: storeInvariant_def)
  have same: "storeInvariant (carts(s \<mapsto> cartOf carts s))" by (rule storeInvariant_upd[OF inv c])
  show ?thesis
    using same inv cartInvariant_splice1[OF c]
    by (auto simp: removeItem_unfold Let_def intro!: storeInvariant_upd)
qed

lemma storeInvariant_clearCart:
  assumes inv: "storeInvariant carts"
  shows "storeInvariant (snd (clearCart carts s))"
proof -
  have c: "cartInvariant (cartOf carts s)" using inv by (simp add: storeInvariant_def)
  have same: "storeInvariant (carts(s \<mapsto> cartOf carts s))" by (rule storeInvariant_upd[OF inv c])
  have "cartInvariant []" by (simp add: cartInvariant_def)
  then show ?thesis
    using same inv by (auto simp: clearCart_unfold intro!: storeInvariant_upd)
qed

lemma storeInvariant_getCart:
  assumes inv: "storeInvariant carts"
  shows "storeInvariant (snd (getCart carts s))"
proof -
  have c: "cartInvariant (cartOf carts s)" using inv by (simp add: storeInvariant_def)
  show ?thesis using storeInvariant_upd[OF inv c] by (simp add: getCart_unfold)
qed

lemma storeInvariant_handle:
  assumes inv: "storeInvariant carts"
  shows "storeInvariant (snd (handle request carts))"
proof (cases request)
  case (POST_cart header uuid productId q)
  then show ?thesis
    using inv by (auto simp: storeInvariant_addItem validateProductId_catalog split: sum.splits)
next
  case (GET_cart header uuid)
  then show ?thesis using inv by (simp add: storeInvariant_getCart)
next
  case (PUT_cart header uuid productId q)
  then show ?thesis
    using inv by (auto simp: storeInvariant_updateItem validateProductId_catalog split: sum.splits)
next
  case (DELETE_cart_item header uuid productId)
  then show ?thesis using inv by (simp add: storeInvariant_removeItem)
next
  case (DELETE_cart header uuid)
  then show ?thesis using inv by (simp add: storeInvariant_clearCart)
qed

lemma reachable_storeInvariant: "reachable carts \<Longrightarrow> storeInvariant carts"
proof (induction rule: reachable.induct)
  case initial
  then show ?case by (simp add: storeInvariant_def cartOf_def cartInvariant_def)
next
  case (step carts request)
  then show ?case by (simp add: storeInvariant_handle)
qed

subsection \<open>Evaluations at concrete inputs\<close>

lemma parseInt_examples:
  "parseInt ''1'' = Some 1" "parseInt ''2'' = Some 2" "parseInt ''3'' = Some 3"
  "parseInt ''abc'' = None" "parseInt ''0x'' = None"
  by (simp_all add: parseInt_def isWhiteSpace_def digitValue_def mathInt_def)

lemma catalog_examples:
  "products ! 0 \<in> set products" "products ! 1 \<in> set products" "products ! 2 \<in> set products"
  "product_id (products ! 0) = 1" "product_id (products ! 1) = 2" "product_id (products ! 2) = 3"
  "product_stock (products ! 0) = 50" "product_stock (products ! 1) = 30"
  by (simp_all add: products_def)

lemma validateProductId_example: "validateProductId ''1'' = Inr (products ! 0)"
proof -
  have "findProductById ''1'' = Some (products ! 0)"
    by (simp add: findProductById_iff parseInt_examples catalog_examples)
  then show ?thesis by (simp add: validateProductId_def parseInt_examples)
qed

lemma cartOf_examples:
  "cartOf Map.empty s = []" "cartOf (Map.empty(s \<mapsto> c)) s = c"
  by (simp_all add: cartOf_def)

lemma POST_example:
  "handle (POST_cart (Some ''s1'') ''u1'' ''1'' (IntegerNumber 2)) Map.empty =
     (Inr (okResponse 201 [newItem (products ! 0) 2] None),
      Map.empty(''s1'' \<mapsto> [newItem (products ! 0) 2]))"
  by (simp add: validateProductId_example generateSessionId_def addItem_unfold Let_def
      withDefault_def cartOf_examples catalog_examples)

section \<open>Properties of the cart operations\<close>



text \<open>
  C2: \<open>addItem\<close> fails with the first stock error when the requested quantity (1 when
  absent) exceeds the stock of the product, and with the second stock error when the
  product already has a line item and that item's quantity plus the requested quantity
  exceeds the stock. \<open>addItem\<close> has no other failure, and on failure every session's cart
  reads as before the call: an existing store entry is untouched, and a session without
  an entry gets the empty cart it already read as.
\<close>

theorem addItem_insufficient_stock:
  assumes run: "addItem carts s p q = (r, carts')"
  shows "(withDefault 1 q > product_stock p \<longrightarrow> r = Inl (InsufficientStock (product_stock p))) \<and>
         (\<forall>existing.
            withDefault 1 q \<le> product_stock p \<and>
            List.find (\<lambda>item. item_id item = product_id p) (cartOf carts s) = Some existing \<and>
            item_quantity existing + withDefault 1 q > product_stock p \<longrightarrow>
            r = Inl (StockLimitExceeded (withDefault 1 q) (product_stock p))) \<and>
         (\<forall>e. r = Inl e \<longrightarrow>
            isInsufficientStock e \<and> (\<forall>t. cartOf carts' t = cartOf carts t) \<and>
            (carts s \<noteq> None \<longrightarrow> carts' = carts) \<and>
            (carts s = None \<longrightarrow> carts' = carts(s \<mapsto> [])))"
  using run
  by (auto simp: addItem_unfold Let_def findIndex_find cartOf_touch touch_existing touch_absent
      split: if_splits)

theorem addItem_insufficient_stock_witness:
  "withDefault 1 (Some 51) > product_stock (products ! 0) \<and>
   fst (addItem Map.empty ''s1'' (products ! 0) (Some 51)) = Inl (InsufficientStock 50) \<and>
   cartOf (snd (addItem Map.empty ''s1'' (products ! 0) (Some 51))) ''s1'' = [] \<and>
   List.find (\<lambda>item. item_id item = product_id (products ! 0))
     (cartOf (Map.empty(''s1'' \<mapsto> [newItem (products ! 0) 30])) ''s1'') =
     Some (newItem (products ! 0) 30) \<and>
   fst (addItem (Map.empty(''s1'' \<mapsto> [newItem (products ! 0) 30])) ''s1'' (products ! 0) (Some 30)) =
     Inl (StockLimitExceeded 30 50) \<and>
   snd (addItem (Map.empty(''s1'' \<mapsto> [newItem (products ! 0) 30])) ''s1'' (products ! 0) (Some 30)) =
     Map.empty(''s1'' \<mapsto> [newItem (products ! 0) 30])"
proof -
  let ?p = "products ! 0"
  let ?c0 = "Map.empty(''s1'' \<mapsto> [newItem ?p 30])"
  have over: "withDefault 1 (Some 51) > product_stock ?p"
    by (simp add: withDefault_def catalog_examples)
  note first = addItem_insufficient_stock[where carts = Map.empty and s = "''s1''" and p = ?p
      and q = "Some 51", OF prod.collapse[symmetric]]
  from first over have r1: "fst (addItem Map.empty ''s1'' ?p (Some 51)) =
      Inl (InsufficientStock (product_stock ?p))" by blast
  with first have c1: "cartOf (snd (addItem Map.empty ''s1'' ?p (Some 51))) ''s1'' =
      cartOf Map.empty ''s1''" by blast
  have found: "List.find (\<lambda>item. item_id item = product_id ?p) (cartOf ?c0 ''s1'') =
      Some (newItem ?p 30)"
    by (simp add: cartOf_examples newItem_def)
  have within: "withDefault 1 (Some 30) \<le> product_stock ?p"
    and sum: "item_quantity (newItem ?p 30) + withDefault 1 (Some 30) > product_stock ?p"
    by (simp_all add: withDefault_def catalog_examples newItem_def)
  note second = addItem_insufficient_stock[where carts = ?c0 and s = "''s1''" and p = ?p
      and q = "Some 30", OF prod.collapse[symmetric]]
  from second found within sum
  have r2: "fst (addItem ?c0 ''s1'' ?p (Some 30)) =
      Inl (StockLimitExceeded (withDefault 1 (Some 30)) (product_stock ?p))" by blast
  have "?c0 ''s1'' \<noteq> None" by simp
  with second r2 have c2: "snd (addItem ?c0 ''s1'' ?p (Some 30)) = ?c0" by blast
  show ?thesis
    using over r1 c1 found r2 c2
    by (simp add: cartOf_examples catalog_examples withDefault_def)
qed

text \<open>
  C3: in every store that the server can reach from the empty store by any sequence of
  requests to the five cart routes, every stored cart has at most one line item per product
  id, and every line item refers to a catalog product whose stock is at least the item's
  quantity.
\<close>

theorem reachable_cart_invariant:
  assumes "reachable carts" and "carts s = Some cart"
  shows "cartInvariant cart"
  using reachable_storeInvariant[OF assms(1)] assms(2)
  by (auto simp: storeInvariant_def cartOf_def split: option.splits dest: spec[of _ s])

theorem reachable_cart_invariant_witness:
  "reachable (snd (handle (POST_cart (Some ''s1'') ''u1'' ''1'' (IntegerNumber 2)) Map.empty)) \<and>
   snd (handle (POST_cart (Some ''s1'') ''u1'' ''1'' (IntegerNumber 2)) Map.empty) ''s1'' =
     Some [newItem (products ! 0) 2] \<and>
   cartInvariant [newItem (products ! 0) 2]"
proof -
  let ?st = "snd (handle (POST_cart (Some ''s1'') ''u1'' ''1'' (IntegerNumber 2)) Map.empty)"
  have reach: "reachable ?st" by (rule reachable.step[OF reachable.initial])
  have stored: "?st ''s1'' = Some [newItem (products ! 0) 2]"
    unfolding POST_example by simp
  from reachable_cart_invariant[OF reach stored] reach stored show ?thesis by blast
qed

text \<open>
  C4: the checks of \<open>updateItem\<close>, in the order of the handler. An absent or zero quantity
  fails with \<open>QuantityRequired\<close>; otherwise a cart without a line item for the product fails
  with \<open>NotFound\<close>; otherwise a quantity above the stock of the product fails with
  \<open>InsufficientStock\<close>; otherwise the first line item of the product gets exactly the given
  quantity, whatever it held before, and nothing else in the cart changes. On failure
  every session's cart reads as before.
\<close>

theorem updateItem_cases:
  assumes run: "updateItem carts s p q = (r, carts')"
  shows "(q = None \<or> q = Some 0 \<longrightarrow> r = Inl QuantityRequired) \<and>
         (\<forall>n. q = Some n \<and> n \<noteq> 0 \<and> (\<forall>it\<in>set (cartOf carts s). item_id it \<noteq> product_id p) \<longrightarrow>
              r = Inl NotFound) \<and>
         (\<forall>n. q = Some n \<and> n \<noteq> 0 \<and> (\<exists>it\<in>set (cartOf carts s). item_id it = product_id p) \<and>
              n > product_stock p \<longrightarrow>
              r = Inl (InsufficientStock (product_stock p))) \<and>
         (\<forall>n. q = Some n \<and> n \<noteq> 0 \<and> (\<exists>it\<in>set (cartOf carts s). item_id it = product_id p) \<and>
              n \<le> product_stock p \<longrightarrow>
              (\<exists>i < length (cartOf carts s).
                 item_id (cartOf carts s ! i) = product_id p \<and>
                 (\<forall>j < i. item_id (cartOf carts s ! j) \<noteq> product_id p) \<and>
                 cartOf carts' s = (cartOf carts s)[i := (cartOf carts s ! i)\<lparr>item_quantity := n\<rparr>] \<and>
                 r = Inr (okResponse 200 (cartOf carts' s) None))) \<and>
         (\<forall>e. r = Inl e \<longrightarrow> (\<forall>t. cartOf carts' t = cartOf carts t))"
proof -
  let ?P = "\<lambda>item. item_id item = product_id p"
  let ?c = "cartOf carts s"
  let ?i = "findIndex ?P ?c"
  have none: "(?i = - 1) = (\<forall>it\<in>set ?c. item_id it \<noteq> product_id p)"
    by (simp add: findIndex_none)
  have found: "?i \<noteq> - 1 \<Longrightarrow> nat ?i < length ?c \<and> item_id (?c ! nat ?i) = product_id p \<and>
       (\<forall>j < nat ?i. item_id (?c ! j) \<noteq> product_id p)"
    using findIndex_found[of ?P ?c] by simp
  have a: "q = None \<or> q = Some 0 \<longrightarrow> r = Inl QuantityRequired"
    using run by (auto simp: updateItem_unfold Let_def)
  have b: "\<forall>n. q = Some n \<and> n \<noteq> 0 \<and> (\<forall>it\<in>set ?c. item_id it \<noteq> product_id p) \<longrightarrow> r = Inl NotFound"
    using run none by (auto simp: updateItem_unfold Let_def)
  have c: "\<forall>n. q = Some n \<and> n \<noteq> 0 \<and> (\<exists>it\<in>set ?c. item_id it = product_id p) \<and>
              n > product_stock p \<longrightarrow> r = Inl (InsufficientStock (product_stock p))"
    using run none by (auto simp: updateItem_unfold Let_def)
  have d: "\<forall>n. q = Some n \<and> n \<noteq> 0 \<and> (\<exists>it\<in>set ?c. item_id it = product_id p) \<and>
              n \<le> product_stock p \<longrightarrow>
              (\<exists>i < length ?c. item_id (?c ! i) = product_id p \<and>
                 (\<forall>j < i. item_id (?c ! j) \<noteq> product_id p) \<and>
                 cartOf carts' s = ?c[i := (?c ! i)\<lparr>item_quantity := n\<rparr>] \<and>
                 r = Inr (okResponse 200 (cartOf carts' s) None))"
  proof (intro allI impI)
    fix n assume h: "q = Some n \<and> n \<noteq> 0 \<and> (\<exists>it\<in>set ?c. item_id it = product_id p) \<and>
              n \<le> product_stock p"
    then have ne: "?i \<noteq> - 1" using none by auto
    from found[OF ne] have f: "nat ?i < length ?c" "item_id (?c ! nat ?i) = product_id p"
      "\<forall>j < nat ?i. item_id (?c ! j) \<noteq> product_id p" by auto
    have res: "r = Inr (okResponse 200 (?c[nat ?i := (?c ! nat ?i)\<lparr>item_quantity := n\<rparr>]) None)"
      "carts' = carts(s \<mapsto> ?c[nat ?i := (?c ! nat ?i)\<lparr>item_quantity := n\<rparr>])"
      using run h ne by (auto simp: updateItem_unfold Let_def)
    have "cartOf carts' s = ?c[nat ?i := (?c ! nat ?i)\<lparr>item_quantity := n\<rparr>]"
      by (simp add: res(2) cartOf_upd)
    then show "\<exists>i < length ?c. item_id (?c ! i) = product_id p \<and>
                 (\<forall>j < i. item_id (?c ! j) \<noteq> product_id p) \<and>
                 cartOf carts' s = ?c[i := (?c ! i)\<lparr>item_quantity := n\<rparr>] \<and>
                 r = Inr (okResponse 200 (cartOf carts' s) None)"
      using f res(1) by (intro exI[of _ "nat ?i"]) simp
  qed
  have e: "\<forall>e. r = Inl e \<longrightarrow> (\<forall>t. cartOf carts' t = cartOf carts t)"
    using run by (auto simp: updateItem_unfold Let_def cartOf_touch split: if_splits)
  show ?thesis using a b c d e by blast
qed

theorem updateItem_cases_witness:
  "fst (updateItem (Map.empty(''s1'' \<mapsto> [newItem (products ! 0) 2])) ''s1'' (products ! 0) None) =
     Inl QuantityRequired \<and>
   fst (updateItem (Map.empty(''s1'' \<mapsto> [newItem (products ! 0) 2])) ''s1'' (products ! 1) (Some 3)) =
     Inl NotFound \<and>
   fst (updateItem (Map.empty(''s1'' \<mapsto> [newItem (products ! 0) 2])) ''s1'' (products ! 0) (Some 51)) =
     Inl (InsufficientStock 50) \<and>
   cartOf (snd (updateItem (Map.empty(''s1'' \<mapsto> [newItem (products ! 0) 2])) ''s1''
                  (products ! 0) (Some 7))) ''s1'' = [newItem (products ! 0) 7] \<and>
   fst (updateItem (Map.empty(''s1'' \<mapsto> [newItem (products ! 0) 2])) ''s1'' (products ! 0) (Some 7)) =
     Inr (okResponse 200 [newItem (products ! 0) 7] None)"
proof -
  let ?p = "products ! 0"
  let ?c0 = "Map.empty(''s1'' \<mapsto> [newItem ?p 2])"
  have cart: "cartOf ?c0 ''s1'' = [newItem ?p 2]" by (rule cartOf_examples)
  have a: "fst (updateItem ?c0 ''s1'' ?p None) = Inl QuantityRequired"
    using updateItem_cases[where carts = ?c0 and s = "''s1''" and p = ?p and q = None,
        OF prod.collapse[symmetric]] by blast
  have absent: "\<forall>it\<in>set (cartOf ?c0 ''s1''). item_id it \<noteq> product_id (products ! 1)"
    unfolding cart by (simp add: newItem_def products_def)
  have b: "fst (updateItem ?c0 ''s1'' (products ! 1) (Some 3)) = Inl NotFound"
    using updateItem_cases[where carts = ?c0 and s = "''s1''" and p = "products ! 1" and q = "Some 3",
        OF prod.collapse[symmetric]]
      absent by auto
  have present: "\<exists>it\<in>set (cartOf ?c0 ''s1''). item_id it = product_id ?p"
    unfolding cart by (simp add: newItem_def)
  have over: "(51::int) > product_stock ?p" and within: "(7::int) \<le> product_stock ?p"
    by (simp_all add: catalog_examples)
  have c: "fst (updateItem ?c0 ''s1'' ?p (Some 51)) = Inl (InsufficientStock (product_stock ?p))"
    using updateItem_cases[where carts = ?c0 and s = "''s1''" and p = ?p and q = "Some 51",
        OF prod.collapse[symmetric]]
      present over by auto
  have "\<exists>i < length (cartOf ?c0 ''s1'').
          cartOf (snd (updateItem ?c0 ''s1'' ?p (Some 7))) ''s1'' =
            (cartOf ?c0 ''s1'')[i := (cartOf ?c0 ''s1'' ! i)\<lparr>item_quantity := 7\<rparr>] \<and>
          fst (updateItem ?c0 ''s1'' ?p (Some 7)) =
            Inr (okResponse 200 (cartOf (snd (updateItem ?c0 ''s1'' ?p (Some 7))) ''s1'') None)"
    using updateItem_cases[where carts = ?c0 and s = "''s1''" and p = ?p and q = "Some 7",
        OF prod.collapse[symmetric]]
      present within by auto
  then have d: "cartOf (snd (updateItem ?c0 ''s1'' ?p (Some 7))) ''s1'' = [newItem ?p 7]"
    and e: "fst (updateItem ?c0 ''s1'' ?p (Some 7)) = Inr (okResponse 200 [newItem ?p 7] None)"
    unfolding cart by (auto simp: newItem_def)
  show ?thesis using a b c d e by (simp add: catalog_examples)
qed

text \<open>
  C5, as the handler behaves: \<open>removeItem\<close> fails with \<open>InvalidId\<close> exactly when
  \<open>parseInt\<close> of the product id is \<open>NaN\<close>, as for \<open>abc\<close>, the empty string or \<open>0x\<close>.
  When \<open>parseInt\<close> reads a number and no line item has it as its id, the call fails with
  \<open>NotFound\<close>; this includes zero and negative numbers.
  Otherwise the first line item with that id is removed, and the response carries the
  removed item and the cart that is now stored.
\<close>

theorem removeItem_cases:
  assumes run: "removeItem carts s productId = (r, carts')"
  shows "(r = Inl InvalidId \<longleftrightarrow> parseInt productId = None) \<and>
         (\<forall>n. parseInt productId = Some n \<and> (\<forall>it\<in>set (cartOf carts s). item_id it \<noteq> n) \<longrightarrow>
              r = Inl NotFound) \<and>
         (\<forall>n. parseInt productId = Some n \<and> (\<exists>it\<in>set (cartOf carts s). item_id it = n) \<longrightarrow>
              (\<exists>i < length (cartOf carts s).
                 item_id (cartOf carts s ! i) = n \<and>
                 (\<forall>j < i. item_id (cartOf carts s ! j) \<noteq> n) \<and>
                 cartOf carts' s = take i (cartOf carts s) @ drop (Suc i) (cartOf carts s) \<and>
                 r = Inr (okResponse 200 (cartOf carts' s) (Some (cartOf carts s ! i)))))"
proof -
  let ?P = "\<lambda>item. Some (item_id item) = parseInt productId"
  let ?c = "cartOf carts s"
  let ?i = "findIndex ?P ?c"
  have a: "r = Inl InvalidId \<longleftrightarrow> parseInt productId = None"
    using run parseInt_empty by (auto simp: removeItem_unfold Let_def split: if_splits)
  have b: "\<forall>n. parseInt productId = Some n \<and> (\<forall>it\<in>set ?c. item_id it \<noteq> n) \<longrightarrow> r = Inl NotFound"
  proof (intro allI impI)
    fix n assume h: "parseInt productId = Some n \<and> (\<forall>it\<in>set ?c. item_id it \<noteq> n)"
    then have "?i = - 1" by (simp add: findIndex_none)
    then show "r = Inl NotFound" using run h parseInt_empty
      by (auto simp: removeItem_unfold Let_def split: if_splits)
  qed
  have c: "\<forall>n. parseInt productId = Some n \<and> (\<exists>it\<in>set ?c. item_id it = n) \<longrightarrow>
              (\<exists>i < length ?c. item_id (?c ! i) = n \<and> (\<forall>j < i. item_id (?c ! j) \<noteq> n) \<and>
                 cartOf carts' s = take i ?c @ drop (Suc i) ?c \<and>
                 r = Inr (okResponse 200 (cartOf carts' s) (Some (?c ! i))))"
  proof (intro allI impI)
    fix n assume h: "parseInt productId = Some n \<and> (\<exists>it\<in>set ?c. item_id it = n)"
    then have ne: "?i \<noteq> - 1" by (auto simp: findIndex_none)
    from findIndex_found[OF ne] h
    have f: "nat ?i < length ?c" "item_id (?c ! nat ?i) = n"
      "\<forall>j < nat ?i. item_id (?c ! j) \<noteq> n" by auto
    have nonempty: "productId \<noteq> []" using h parseInt_empty by auto
    have res: "r = Inr (okResponse 200 (splice1 ?c (nat ?i)) (Some (?c ! nat ?i)))"
      "carts' = carts(s \<mapsto> splice1 ?c (nat ?i))"
      using run h ne nonempty by (auto simp: removeItem_unfold Let_def)
    have "cartOf carts' s = take (nat ?i) ?c @ drop (Suc (nat ?i)) ?c"
      by (simp add: res(2) cartOf_upd splice1_def)
    then show "\<exists>i < length ?c. item_id (?c ! i) = n \<and> (\<forall>j < i. item_id (?c ! j) \<noteq> n) \<and>
                 cartOf carts' s = take i ?c @ drop (Suc i) ?c \<and>
                 r = Inr (okResponse 200 (cartOf carts' s) (Some (?c ! i)))"
      using f res(1) by (intro exI[of _ "nat ?i"]) (simp add: splice1_def)
  qed
  show ?thesis using a b c by blast
qed

theorem removeItem_cases_witness:
  "parseInt ''abc'' = None \<and>
   fst (removeItem (Map.empty(''s1'' \<mapsto> [newItem (products ! 0) 2])) ''s1'' ''abc'') = Inl InvalidId \<and>
   parseInt ''0x'' = None \<and>
   fst (removeItem (Map.empty(''s1'' \<mapsto> [newItem (products ! 0) 2])) ''s1'' ''0x'') = Inl InvalidId \<and>
   parseInt ''3'' = Some 3 \<and>
   fst (removeItem (Map.empty(''s1'' \<mapsto> [newItem (products ! 0) 2])) ''s1'' ''3'') = Inl NotFound \<and>
   parseInt ''1'' = Some 1 \<and>
   cartOf (snd (removeItem (Map.empty(''s1'' \<mapsto> [newItem (products ! 0) 2])) ''s1'' ''1'')) ''s1'' = [] \<and>
   fst (removeItem (Map.empty(''s1'' \<mapsto> [newItem (products ! 0) 2])) ''s1'' ''1'') =
     Inr (okResponse 200 [] (Some (newItem (products ! 0) 2)))"
proof -
  let ?p = "products ! 0"
  let ?c0 = "Map.empty(''s1'' \<mapsto> [newItem ?p 2])"
  have cart: "cartOf ?c0 ''s1'' = [newItem ?p 2]" by (rule cartOf_examples)
  have a: "fst (removeItem ?c0 ''s1'' ''abc'') = Inl InvalidId"
    using removeItem_cases[where carts = ?c0 and s = "''s1''" and productId = "''abc''",
        OF prod.collapse[symmetric]]
      parseInt_examples(4) by blast
  have a': "fst (removeItem ?c0 ''s1'' ''0x'') = Inl InvalidId"
    using removeItem_cases[where carts = ?c0 and s = "''s1''" and productId = "''0x''",
        OF prod.collapse[symmetric]]
      parseInt_examples(5) by blast
  have absent: "\<forall>it\<in>set (cartOf ?c0 ''s1''). item_id it \<noteq> 3"
    unfolding cart by (simp add: newItem_def catalog_examples)
  have b: "fst (removeItem ?c0 ''s1'' ''3'') = Inl NotFound"
    using removeItem_cases[where carts = ?c0 and s = "''s1''" and productId = "''3''",
        OF prod.collapse[symmetric]]
      parseInt_examples(3) absent by blast
  have present: "\<exists>it\<in>set (cartOf ?c0 ''s1''). item_id it = 1"
    unfolding cart by (simp add: newItem_def catalog_examples)
  have "\<exists>i < length (cartOf ?c0 ''s1'').
          cartOf (snd (removeItem ?c0 ''s1'' ''1'')) ''s1'' =
            take i (cartOf ?c0 ''s1'') @ drop (Suc i) (cartOf ?c0 ''s1'') \<and>
          fst (removeItem ?c0 ''s1'' ''1'') =
            Inr (okResponse 200 (cartOf (snd (removeItem ?c0 ''s1'' ''1'')) ''s1'')
                   (Some (cartOf ?c0 ''s1'' ! i)))"
    using removeItem_cases[where carts = ?c0 and s = "''s1''" and productId = "''1''",
        OF prod.collapse[symmetric]]
      parseInt_examples(1) present by auto
  then have c: "cartOf (snd (removeItem ?c0 ''s1'' ''1'')) ''s1'' = []"
    and d: "fst (removeItem ?c0 ''s1'' ''1'') = Inr (okResponse 200 [] (Some (newItem ?p 2)))"
    by (auto simp: cart)
  show ?thesis using a a' b c d parseInt_examples by simp
qed

text \<open>
  The product ids \<open>0\<close> and \<open>-5\<close> are not positive integers, yet removing them from an empty
  cart fails with \<open>NotFound\<close>, not with \<open>InvalidId\<close>.
\<close>

theorem removeItem_nonpositive_counterexample:
  "\<not> (fst (removeItem Map.empty ''s'' ''0'') = Inl InvalidId \<longleftrightarrow> \<not> parseablePositiveInteger ''0'') \<and>
   \<not> (fst (removeItem Map.empty ''s'' ''-5'') = Inl InvalidId \<longleftrightarrow> \<not> parseablePositiveInteger ''-5'') \<and>
   fst (removeItem Map.empty ''s'' ''0'') = Inl NotFound \<and>
   fst (removeItem Map.empty ''s'' ''-5'') = Inl NotFound"
  by (simp add: removeItem_unfold Let_def parseablePositiveInteger_def parseInt_def
      isWhiteSpace_def digitValue_def mathInt_def cartOf_def)

section \<open>Properties of the catalog and the listing\<close>

text \<open>
  C6, as the lookup behaves: \<open>findProductById\<close> returns a product exactly when that
  product is in the catalog and its id is the number that \<open>parseInt\<close> reads from the
  input. For the decimal numeral of a positive integer that number is the numeral's value,
  so the product with that id is returned exactly when it exists. With no number to read
  the result is absence. The function is total: it never raises.
\<close>

theorem findProductById_parseInt:
  "(findProductById s = Some p \<longleftrightarrow> p \<in> set products \<and> parseInt s = Some (product_id p)) \<and>
   (validPositiveInteger s \<longrightarrow>
      (findProductById s = Some p \<longleftrightarrow> p \<in> set products \<and> product_id p = int (decimalValue s))) \<and>
   (parseInt s = None \<longrightarrow> findProductById s = None)"
proof (intro conjI impI)
  show "findProductById s = Some p \<longleftrightarrow> p \<in> set products \<and> parseInt s = Some (product_id p)"
    by (rule findProductById_iff)
  show "findProductById s = Some p \<longleftrightarrow> p \<in> set products \<and> product_id p = int (decimalValue s)"
    if "validPositiveInteger s"
    using that parseInt_decimal[of s] by (auto simp: findProductById_iff validPositiveInteger_def)
  show "findProductById s = None" if "parseInt s = None"
    using that by (simp add: findProductById_def find_None_iff[THEN iffD2])
qed

theorem findProductById_parseInt_witness:
  "validPositiveInteger ''3'' \<and> findProductById ''3'' = Some (products ! 2) \<and>
   parseInt ''abc'' = None \<and> findProductById ''abc'' = None"
proof -
  have valid: "validPositiveInteger ''3''"
    by (simp add: validPositiveInteger_def isDecimalDigit_def decimalValue_def)
  have third: "products ! 2 \<in> set products \<and> product_id (products ! 2) = int (decimalValue ''3'')"
    by (simp add: catalog_examples decimalValue_def)
  have a: "findProductById ''3'' = Some (products ! 2)"
    using findProductById_parseInt[where s = "''3''" and p = "products ! 2"] valid third by blast
  have b: "findProductById ''abc'' = None"
    using findProductById_parseInt[where s = "''abc''" and p = "products ! 2"] parseInt_examples(4) by blast
  show ?thesis using valid a b parseInt_examples(4) by simp
qed

text \<open>
  The inputs \<open>1abc\<close> and \<open>1.5\<close> are not valid positive integers, yet the lookup does not
  return absence for them: it returns the first product of the catalog, whose id is 1.
\<close>

theorem findProductById_malformed_counterexample:
  "\<not> validPositiveInteger ''1abc'' \<and> findProductById ''1abc'' = Some (products ! 0) \<and>
   \<not> validPositiveInteger ''1.5'' \<and> findProductById ''1.5'' = Some (products ! 0)"
  by (simp add: validPositiveInteger_def isDecimalDigit_def findProductById_def parseInt_def
      isWhiteSpace_def digitValue_def mathInt_def products_def)

text \<open>
  C8: a request whose session identifier is not \<open>s2\<close> leaves the store entry of \<open>s2\<close> as
  it was, and its response depends on the store only through the cart of its own session:
  two stores that agree on that cart give the same response. So no session reads or writes
  the cart of another one.
\<close>

theorem session_isolation:
  "(sessionOf request \<noteq> s2 \<longrightarrow> snd (handle request carts) s2 = carts s2) \<and>
   (cartOf carts (sessionOf request) = cartOf carts' (sessionOf request) \<longrightarrow>
      fst (handle request carts) = fst (handle request carts'))"
proof (intro conjI impI)
  show "snd (handle request carts) s2 = carts s2" if "sessionOf request \<noteq> s2"
    using handle_cases[of request carts] that
    by (auto simp: frame_def split: sum.splits)
  show "fst (handle request carts) = fst (handle request carts')"
    if "cartOf carts (sessionOf request) = cartOf carts' (sessionOf request)"
    using that by (rule response_depends_on_own_cart)
qed

theorem session_isolation_witness:
  "sessionOf (POST_cart (Some ''s1'') ''u1'' ''1'' (IntegerNumber 2)) \<noteq> ''s2'' \<and>
   snd (handle (POST_cart (Some ''s1'') ''u1'' ''1'' (IntegerNumber 2))
          (Map.empty(''s2'' \<mapsto> [newItem (products ! 1) 1]))) ''s2'' =
     Some [newItem (products ! 1) 1] \<and>
   cartOf (Map.empty(''s2'' \<mapsto> [newItem (products ! 1) 1]))
     (sessionOf (POST_cart (Some ''s1'') ''u1'' ''1'' (IntegerNumber 2))) =
   cartOf Map.empty (sessionOf (POST_cart (Some ''s1'') ''u1'' ''1'' (IntegerNumber 2))) \<and>
   fst (handle (POST_cart (Some ''s1'') ''u1'' ''1'' (IntegerNumber 2))
          (Map.empty(''s2'' \<mapsto> [newItem (products ! 1) 1]))) =
     Inr (okResponse 201 [newItem (products ! 0) 2] None)"
proof -
  let ?r = "POST_cart (Some ''s1'') ''u1'' ''1'' (IntegerNumber 2)"
  let ?c0 = "Map.empty(''s2'' \<mapsto> [newItem (products ! 1) 1])"
  have other: "sessionOf ?r \<noteq> ''s2''" by (simp add: generateSessionId_def)
  have agree: "cartOf ?c0 (sessionOf ?r) = cartOf Map.empty (sessionOf ?r)"
    by (simp add: generateSessionId_def cartOf_def)
  note iso = session_isolation[where request = ?r and ?s2.0 = "''s2''" and carts = ?c0
      and carts' = Map.empty]
  from iso other have a: "snd (handle ?r ?c0) ''s2'' = ?c0 ''s2''" by blast
  from iso agree have b: "fst (handle ?r ?c0) = fst (handle ?r Map.empty)" by blast
  have c: "fst (handle ?r Map.empty) = Inr (okResponse 201 [newItem (products ! 0) 2] None)"
    unfolding POST_example by simp
  have d: "?c0 ''s2'' = Some [newItem (products ! 1) 1]" by simp
  show ?thesis using other agree a b c d by (simp only: simp_thms)
qed

text \<open>
  C9, for whole numbers: let \<open>page\<close> and \<open>limit\<close> denote integers \<open>p\<close> and \<open>l\<close> with
  \<open>l > 0\<close> and \<open>(|p| + 1) * l \<le> 2 ^ 53\<close> (so that the arithmetic of the handler is exact),
  and let fewer than \<open>2 ^ 53\<close> products match. Then the listing returns
  \<open>slice((p - 1) * l, p * l)\<close> of the matching products, which has at most \<open>l\<close> elements:
  for \<open>p \<ge> 1\<close> the matching products at the indices from \<open>(p - 1) * l\<close> up to, and without,
  \<open>p * l\<close>; for \<open>p = 0\<close> none; for \<open>p < 0\<close> the products at those indices counted from the
  end of the list. \<open>totalPages\<close> is the ceiling of \<open>matchCount / l\<close>, the least number of
  pages of \<open>l\<close> products that hold all matches; \<open>totalProducts\<close> is \<open>matchCount\<close>;
  \<open>hasNext\<close> tells whether \<open>p * l < matchCount\<close> and \<open>hasPrev\<close> whether \<open>(p - 1) * l > 0\<close>.
\<close>

theorem listProducts_pagination:
  assumes page: "withDefault (Num 1) pageParam = Num (of_int p)"
    and limit: "withDefault (Num 10) limitParam = Num (of_int l)"
    and pos: "0 < l"
    and range: "(\<bar>p\<bar> + 1) * l \<le> 2 ^ 53"
    and count: "length (matchingProducts catalog search) < 2 ^ 53"
  shows "let matches = matchingProducts catalog search;
             n = length matches;
             r = listProducts catalog search pageParam limitParam
         in listing_products r =
              slice matches (Num (of_int ((p - 1) * l))) (Num (of_int (p * l))) \<and>
            int (length (listing_products r)) \<le> l \<and>
            (1 \<le> p \<longrightarrow>
               listing_products r =
                 map (nth matches) [nat ((p - 1) * l)..<min (nat (p * l)) n]) \<and>
            (p = 0 \<longrightarrow> listing_products r = []) \<and>
            (p < 0 \<longrightarrow>
               listing_products r =
                 map (nth matches) [nat (int n + (p - 1) * l)..<nat (int n + p * l)]) \<and>
            totalPages (listing_pagination r) = Some \<lceil>rat_of_nat n / rat_of_int l\<rceil> \<and>
            (\<exists>k. totalPages (listing_pagination r) = Some k \<and>
                 (k - 1) * l < int n \<and> int n \<le> k * l) \<and>
            totalProducts (listing_pagination r) = n \<and>
            hasNext (listing_pagination r) = (p * l < int n) \<and>
            hasPrev (listing_pagination r) = ((p - 1) * l > 0)"
proof -
  define matches where "matches = matchingProducts catalog search"
  define n where "n = length matches"
  define r where "r = listProducts catalog search pageParam limitParam"
  note idx = listing_indices[OF pos range]
  have n53: "n < 2 ^ 53" using count by (simp add: n_def matches_def)
  have prods: "listing_products r =
      slice matches (Num (of_int ((p - 1) * l))) (Num (of_int (p * l)))"
    by (simp add: r_def listProducts_def Let_def page limit idx(1,2) matches_def)
  have len: "int (length (listing_products r)) \<le> l"
    unfolding prods by (rule slice_int_length[OF _ pos]) (simp add: algebra_simps)
  have lt: "(p - 1) * l < p * l" using pos by (simp add: algebra_simps)
  have first: "listing_products r = map (nth matches) [nat ((p - 1) * l)..<min (nat (p * l)) n]"
    if "1 \<le> p"
    unfolding prods n_def using that pos lt
    by (intro slice_int_nonneg) simp_all
  have zero: "listing_products r = []" if "p = 0"
    unfolding prods using that slice_int_to_zero[of matches "- l"] by simp
  have neg: "listing_products r =
       map (nth matches) [nat (int n + (p - 1) * l)..<nat (int n + p * l)]" if "p < 0"
  proof -
    have "p * l < 0" using that pos by (simp add: mult_neg_pos)
    then show ?thesis unfolding prods n_def using lt by (intro slice_int_negative) simp_all
  qed
  let ?k = "\<lceil>rat_of_nat n / rat_of_int l\<rceil>"
  have tp: "totalPages (listing_pagination r) = Some ?k"
    using ceilOfQuotient_int[OF n53 pos idx(3)]
    by (simp add: r_def listProducts_def Let_def limit matches_def n_def)
  have lpos: "0 < rat_of_int l" using pos by simp
  have up: "int n \<le> ?k * l"
  proof -
    have "rat_of_nat n / rat_of_int l \<le> rat_of_int ?k" by (rule le_of_int_ceiling)
    then have "rat_of_nat n \<le> rat_of_int ?k * rat_of_int l"
      by (simp only: pos_divide_le_eq[OF lpos])
    then have "rat_of_int (int n) \<le> rat_of_int (?k * l)" by simp
    then show ?thesis by (simp only: of_int_le_iff)
  qed
  have low: "(?k - 1) * l < int n"
  proof -
    have "rat_of_int ?k - 1 < rat_of_nat n / rat_of_int l" by linarith
    then have "(rat_of_int ?k - 1) * rat_of_int l < rat_of_nat n"
      by (simp only: pos_less_divide_eq[OF lpos])
    then have "rat_of_int ((?k - 1) * l) < rat_of_int (int n)" by simp
    then show ?thesis by (simp only: of_int_less_iff)
  qed
  have total: "totalProducts (listing_pagination r) = n"
    by (simp add: r_def listProducts_def Let_def matches_def n_def)
  have "hasNext (listing_pagination r) =
      numberLess (Num (of_int (p * l))) (Num (of_int (int n)))"
    by (simp add: r_def listProducts_def Let_def page limit idx(2) matches_def n_def)
  then have nxt: "hasNext (listing_pagination r) = (p * l < int n)"
    by (simp only: numberLess_int)
  have "hasPrev (listing_pagination r) =
      numberLess (Num (of_int 0)) (Num (of_int ((p - 1) * l)))"
    by (simp add: r_def listProducts_def Let_def page limit idx(1) matches_def)
  then have prv: "hasPrev (listing_pagination r) = ((p - 1) * l > 0)"
    by (simp only: numberLess_int)
  show ?thesis
    unfolding Let_def matches_def[symmetric] n_def[symmetric] r_def[symmetric]
    using prods len first zero neg tp up low total nxt prv by blast
qed

theorem listProducts_pagination_witness:
  "withDefault (Num 1) (Some (Num 2)) = Num (of_int 2) \<and>
   withDefault (Num 10) (Some (Num 2)) = Num (of_int 2) \<and>
   (\<bar>2\<bar> + 1) * 2 \<le> (2::int) ^ 53 \<and>
   length (matchingProducts products None) = 5 \<and>
   map product_id (listing_products (listProducts products None (Some (Num 2)) (Some (Num 2)))) =
     [3, 4] \<and>
   listing_pagination (listProducts products None (Some (Num 2)) (Some (Num 2))) =
     \<lparr> totalPages = Some 3, totalProducts = 5, hasNext = True, hasPrev = True \<rparr>"
proof -
  let ?r = "listProducts products None (Some (Num 2)) (Some (Num 2))"
  have page: "withDefault (Num 1) (Some (Num 2)) = Num (of_int 2)"
    and limit: "withDefault (Num 10) (Some (Num 2)) = Num (of_int 2)"
    by (simp_all add: withDefault_def)
  have range: "(\<bar>2\<bar> + 1) * 2 \<le> (2::int) ^ 53" by simp
  have m: "matchingProducts products None = products" by (simp add: matchingProducts_def)
  have len: "length products = 5" by (simp add: products_def)
  have count: "length (matchingProducts products None) < 2 ^ 53" unfolding m len by simp
  have ceil: "\<lceil>rat_of_nat 5 / rat_of_int 2\<rceil> = 3" by (rule ceiling_unique) simp_all
  note th = listProducts_pagination[where pageParam = "Some (Num 2)"
      and limitParam = "Some (Num 2)" and p = 2 and l = 2 and catalog = products
      and search = None, OF page limit _ range count, unfolded Let_def m len]
  have th': "0 < (2::int)" by simp
  from th[OF th'] have "(1::int) \<le> 2 \<longrightarrow> listing_products ?r =
      map (nth products) [nat ((2 - 1) * 2)..<min (nat (2 * 2)) 5]" by blast
  then have prods: "listing_products ?r = map (nth products) [2..<4]" by simp
  from th[OF th'] have tp: "totalPages (listing_pagination ?r) =
      Some \<lceil>rat_of_nat 5 / rat_of_int 2\<rceil>" by blast
  from th[OF th'] have tot: "totalProducts (listing_pagination ?r) = 5" by blast
  from th[OF th'] have nxt: "hasNext (listing_pagination ?r) = ((2::int) * 2 < int 5)" by blast
  from th[OF th'] have prv: "hasPrev (listing_pagination ?r) = (((2::int) - 1) * 2 > 0)" by blast
  have a: "map product_id (listing_products ?r) = [3, 4]"
    unfolding prods by (simp add: products_def upt_rec)
  have b: "listing_pagination ?r =
     \<lparr> totalPages = Some 3, totalProducts = 5, hasNext = True, hasPrev = True \<rparr>"
    using tp tot nxt prv unfolding ceil by (cases "listing_pagination ?r") simp
  show ?thesis using page limit range a b m len by (simp only: simp_thms)
qed

text \<open>
  Outside the whole numbers the bound on the number of products fails. With \<open>page = 2\<close>
  and \<open>limit = 1.5\<close> the listing has 2 products, more than the limit: the indices are
  \<open>1.5\<close> and \<open>3\<close>, and \<open>slice\<close> truncates \<open>1.5\<close> to \<open>1\<close>. With
  \<open>page = 1.3333333333333333\<close> and \<open>limit = 3\<close> it has 4 products: the end index
  \<open>page * 3\<close> is rounded up to \<open>4\<close>, the start index is just below \<open>1\<close> and is truncated
  to \<open>0\<close>.
\<close>

theorem listProducts_fraction_counterexample:
  "fl (3 / 2) = Num (3 / 2) \<and>
   length (listing_products (listProducts products None (Some (Num 2)) (Some (Num (3 / 2))))) = 2 \<and>
   \<not> rat_of_nat 2 \<le> 3 / 2 \<and>
   fl (13333333333333333 / 10 ^ 16) = Num (6004799503160661 / 4503599627370496) \<and>
   length (listing_products (listProducts products None
             (Some (Num (6004799503160661 / 4503599627370496))) (Some (Num 3)))) = 4 \<and>
   \<not> rat_of_nat 4 \<le> 3"
proof -
  have m: "matchingProducts products None = products" by (simp add: matchingProducts_def)
  have len: "length products = 5" by (simp add: products_def)
  have one: "fl 1 = Num 1" and three: "fl 3 = Num 3" using fl_int[of 1] fl_int[of 3] by simp_all
  have s1: "numberMultiply (numberSubtract (Num 2) (Num 1)) (Num (3 / 2)) = Num (3 / 2)"
    by (simp add: numberSubtract_def numberMultiply_def one fl_examples)
  have e1: "numberMultiply (Num 2) (Num (3 / 2)) = Num 3"
    by (simp add: numberMultiply_def three)
  have f1: "\<lfloor>3 / 2 :: rat\<rfloor> = 1" by (rule floor_unique) simp_all
  have i1: "relativeIndex 5 (Num (3 / 2)) = 1" "relativeIndex 5 (Num 3) = 3"
    by (simp_all add: relativeIndex_def truncate_rat_def f1)
  have a: "length (listing_products
             (listProducts products None (Some (Num 2)) (Some (Num (3 / 2))))) = 2"
    by (simp add: listProducts_def Let_def withDefault_def m s1 e1 slice_def len i1)
  have s2: "numberMultiply (numberSubtract (Num (6004799503160661 / 4503599627370496)) (Num 1))
              (Num 3) = Num (4503599627370495 / 4503599627370496)"
    by (simp add: numberSubtract_def numberMultiply_def fl_examples)
  have e2: "numberMultiply (Num (6004799503160661 / 4503599627370496)) (Num 3) = Num 4"
    by (simp add: numberMultiply_def fl_examples)
  have f2: "\<lfloor>4503599627370495 / 4503599627370496 :: rat\<rfloor> = 0"
    by (rule floor_unique) simp_all
  have i2: "relativeIndex 5 (Num (4503599627370495 / 4503599627370496)) = 0"
    "relativeIndex 5 (Num 4) = 4"
    by (simp_all add: relativeIndex_def truncate_rat_def f2)
  have b: "length (listing_products (listProducts products None
             (Some (Num (6004799503160661 / 4503599627370496))) (Some (Num 3)))) = 4"
    by (simp add: listProducts_def Let_def withDefault_def m s2 e2 slice_def len i2)
  show ?thesis using a b fl_examples(1,2) by simp
qed

text \<open>
  C10: in every success response of a cart route, \<open>itemCount\<close> is the number of line items
  of the cart in the response, and that cart is the one now stored for the session. It is
  the number of line items, not the sum of their quantities.
\<close>

theorem itemCount_is_length:
  assumes "fst (handle request carts) = Inr resp"
  shows "resp_itemCount resp = length (resp_cart resp) \<and>
         cartOf (snd (handle request carts)) (sessionOf request) = resp_cart resp"
  using handle_cases[of request carts] assms
  by (auto simp: frame_def cartOf_upd split: sum.splits)

theorem itemCount_is_length_witness:
  "fst (handle (POST_cart (Some ''s1'') ''u1'' ''1'' (IntegerNumber 2)) Map.empty) =
     Inr (okResponse 201 [newItem (products ! 0) 2] None) \<and>
   resp_itemCount (okResponse 201 [newItem (products ! 0) 2] None) = 1 \<and>
   sum_list (map item_quantity (resp_cart (okResponse 201 [newItem (products ! 0) 2] None))) = 2"
proof -
  have ok: "fst (handle (POST_cart (Some ''s1'') ''u1'' ''1'' (IntegerNumber 2)) Map.empty) =
     Inr (okResponse 201 [newItem (products ! 0) 2] None)"
    unfolding POST_example by simp
  from itemCount_is_length[OF ok]
  have "resp_itemCount (okResponse 201 [newItem (products ! 0) 2] None) =
        length (resp_cart (okResponse 201 [newItem (products ! 0) 2] None))" by blast
  then show ?thesis using ok by (simp add: okResponse_def newItem_def)
qed

end
